theory Spec2Isabelle
  imports Complex_Main "HOL-Library.AList" "HOL-Library.Multiset"
begin

section \<open>The JavaScript values the engine computes with\<close>

text \<open>
  The engine of \<^verbatim>\<open>columnDataUtils.tsx\<close> stores cells of TypeScript type
  \<^verbatim>\<open>string | number\<close>. A number is NaN, one of the two infinities, or a finite
  value. Finite values are modelled as exact rationals: the rounding of IEEE doubles
  and the sign of zero are not modelled, so the model agrees with JavaScript wherever
  the arithmetic is exact (in particular on integers of magnitude below \<open>2^53\<close>).
\<close>

datatype jsnum = NaN | PosInfinity | NegInfinity | Finite rat

datatype cell = Str string | Num jsnum

subsection \<open>Comparison, addition and division of numbers\<close>

fun js_gt :: "jsnum \<Rightarrow> jsnum \<Rightarrow> bool" where
  "js_gt NaN _ = False"
| "js_gt _ NaN = False"
| "js_gt PosInfinity PosInfinity = False"
| "js_gt PosInfinity _ = True"
| "js_gt NegInfinity _ = False"
| "js_gt (Finite x) PosInfinity = False"
| "js_gt (Finite x) NegInfinity = True"
| "js_gt (Finite x) (Finite y) = (x > y)"

definition js_lt :: "jsnum \<Rightarrow> jsnum \<Rightarrow> bool" where
  "js_lt a b = js_gt b a"

fun js_add :: "jsnum \<Rightarrow> jsnum \<Rightarrow> jsnum" where
  "js_add NaN _ = NaN"
| "js_add _ NaN = NaN"
| "js_add PosInfinity NegInfinity = NaN"
| "js_add NegInfinity PosInfinity = NaN"
| "js_add PosInfinity _ = PosInfinity"
| "js_add NegInfinity _ = NegInfinity"
| "js_add (Finite x) PosInfinity = PosInfinity"
| "js_add (Finite x) NegInfinity = NegInfinity"
| "js_add (Finite x) (Finite y) = Finite (x + y)"

text \<open>Division; a zero divisor is the positive zero (the only zero the engine divides
  by is the length of an array).\<close>

fun js_div :: "jsnum \<Rightarrow> jsnum \<Rightarrow> jsnum" where
  "js_div NaN _ = NaN"
| "js_div _ NaN = NaN"
| "js_div PosInfinity (Finite y) = (if y < 0 then NegInfinity else PosInfinity)"
| "js_div NegInfinity (Finite y) = (if y < 0 then PosInfinity else NegInfinity)"
| "js_div PosInfinity _ = NaN"
| "js_div NegInfinity _ = NaN"
| "js_div (Finite x) PosInfinity = Finite 0"
| "js_div (Finite x) NegInfinity = Finite 0"
| "js_div (Finite x) (Finite y) =
     (if y = 0 then (if x = 0 then NaN else if x > 0 then PosInfinity else NegInfinity)
      else Finite (x / y))"

subsection \<open>\<^verbatim>\<open>String(n)\<close>: a number as a string\<close>

definition digitChar :: "nat \<Rightarrow> char" where
  "digitChar d = ''0123456789'' ! (d mod 10)"

fun showNat :: "nat \<Rightarrow> string" where
  "showNat n = (if n < 10 then [digitChar n] else showNat (n div 10) @ [digitChar (n mod 10)])"

declare showNat.simps [simp del]

text \<open>The digits after the decimal point of \<open>r\<close> (with \<open>0 \<le> r < 1\<close>), at most \<open>k\<close> of
  them.\<close>

fun fractionDigits :: "nat \<Rightarrow> rat \<Rightarrow> string" where
  "fractionDigits 0 r = []"
| "fractionDigits (Suc k) r =
     (if r = 0 then []
      else digitChar (nat \<lfloor>10 * r\<rfloor>) # fractionDigits k (10 * r - of_int \<lfloor>10 * r\<rfloor>))"

text \<open>
  An integer prints as its decimal digits, as JavaScript prints it below \<open>10^21\<close>. A
  value that is not an integer prints its integer part, a point and its decimal
  expansion cut after 17 digits; JavaScript prints the shortest decimal that reads back
  as the same double, which is the same string for a short exact expansion such as
  \<open>1.5\<close>. No theorem below evaluates the second case.
\<close>

definition showFinite :: "rat \<Rightarrow> string" where
  "showFinite q =
     (let a = \<bar>q\<bar>; i = \<lfloor>a\<rfloor>;
          body = (if of_int i = a then showNat (nat i)
                  else showNat (nat i) @ CHR ''.'' # fractionDigits 17 (a - of_int i))
      in if q < 0 then CHR ''-'' # body else body)"

fun String_num :: "jsnum \<Rightarrow> string" where
  "String_num NaN = ''NaN''"
| "String_num PosInfinity = ''Infinity''"
| "String_num NegInfinity = ''-Infinity''"
| "String_num (Finite q) = showFinite q"

text \<open>\<^verbatim>\<open>String(v)\<close> and \<^verbatim>\<open>v.toString()\<close> on a cell: a string is returned as it is.\<close>

fun String_cell :: "cell \<Rightarrow> string" where
  "String_cell (Str s) = s"
| "String_cell (Num n) = String_num n"

subsection \<open>\<^verbatim>\<open>Number(v)\<close>: a cell as a number\<close>

text \<open>
  \<^verbatim>\<open>Number\<close> on a string follows the StringNumericLiteral grammar of ECMAScript:
  white space is trimmed, the empty string is 0, then a binary, octal or hexadecimal
  integer without sign, or a signed decimal with optional fraction and exponent, or a
  signed \<^verbatim>\<open>Infinity\<close>; every other string is NaN. Only the ASCII white space
  characters are modelled.
\<close>

definition isStrWhiteSpace :: "char \<Rightarrow> bool" where
  "isStrWhiteSpace c = (of_char c \<in> {9, 10, 11, 12, 13, 32 :: nat})"

definition trimString :: "string \<Rightarrow> string" where
  "trimString s = rev (dropWhile isStrWhiteSpace (rev (dropWhile isStrWhiteSpace s)))"

definition digitValue :: "char \<Rightarrow> nat option" where
  "digitValue c =
     (let n = (of_char c :: nat) in
      if 48 \<le> n \<and> n \<le> 57 then Some (n - 48)
      else if 97 \<le> n \<and> n \<le> 102 then Some (n - 87)
      else if 65 \<le> n \<and> n \<le> 70 then Some (n - 55)
      else None)"

definition isDigitOf :: "nat \<Rightarrow> char \<Rightarrow> bool" where
  "isDigitOf base c = (case digitValue c of None \<Rightarrow> False | Some d \<Rightarrow> d < base)"

definition digitsValue :: "nat \<Rightarrow> string \<Rightarrow> nat" where
  "digitsValue base ds = foldl (\<lambda>acc c. base * acc + (case digitValue c of None \<Rightarrow> 0 | Some d \<Rightarrow> d)) 0 ds"

definition parseRadix :: "nat \<Rightarrow> string \<Rightarrow> jsnum" where
  "parseRadix base ds =
     (if ds \<noteq> [] \<and> list_all (isDigitOf base) ds then Finite (of_nat (digitsValue base ds))
      else NaN)"

text \<open>The ExponentPart after the mantissa: absent, or \<^verbatim>\<open>e\<close> with a signed integer.\<close>

definition parseExponent :: "string \<Rightarrow> int option" where
  "parseExponent s =
     (case s of
        [] \<Rightarrow> Some 0
      | c # r \<Rightarrow>
          if c = CHR ''e'' \<or> c = CHR ''E'' then
            (let neg = (case r of [] \<Rightarrow> False | d # _ \<Rightarrow> d = CHR ''-'');
                 ds = (case r of [] \<Rightarrow> []
                       | d # r' \<Rightarrow> if d = CHR ''+'' \<or> d = CHR ''-'' then r' else r)
             in if ds \<noteq> [] \<and> list_all (isDigitOf 10) ds
                then Some (if neg then - int (digitsValue 10 ds) else int (digitsValue 10 ds))
                else None)
          else None)"

definition scale10 :: "rat \<Rightarrow> int \<Rightarrow> rat" where
  "scale10 m e = (if e < 0 then m / 10 ^ nat (- e) else m * 10 ^ nat e)"

definition parseUnsignedDecimal :: "string \<Rightarrow> jsnum" where
  "parseUnsignedDecimal s =
     (if s = ''Infinity'' then PosInfinity
      else
        let ip = takeWhile (isDigitOf 10) s; r1 = dropWhile (isDigitOf 10) s;
            fp = (case r1 of [] \<Rightarrow> []
                  | c # r \<Rightarrow> if c = CHR ''.'' then takeWhile (isDigitOf 10) r else []);
            r2 = (case r1 of [] \<Rightarrow> []
                  | c # r \<Rightarrow> if c = CHR ''.'' then dropWhile (isDigitOf 10) r else r1)
        in if ip = [] \<and> fp = [] then NaN
           else (case parseExponent r2 of
                   None \<Rightarrow> NaN
                 | Some e \<Rightarrow>
                     Finite (scale10 (of_nat (digitsValue 10 ip)
                                       + of_nat (digitsValue 10 fp) / 10 ^ length fp) e)))"

fun js_negate :: "jsnum \<Rightarrow> jsnum" where
  "js_negate NaN = NaN"
| "js_negate PosInfinity = NegInfinity"
| "js_negate NegInfinity = PosInfinity"
| "js_negate (Finite x) = Finite (- x)"

definition StringToNumber :: "string \<Rightarrow> jsnum" where
  "StringToNumber s =
     (case trimString s of
        [] \<Rightarrow> Finite 0
      | c # r \<Rightarrow>
          if c = CHR ''0'' \<and> r \<noteq> [] \<and> hd r \<in> set ''xX'' then parseRadix 16 (tl r)
          else if c = CHR ''0'' \<and> r \<noteq> [] \<and> hd r \<in> set ''oO'' then parseRadix 8 (tl r)
          else if c = CHR ''0'' \<and> r \<noteq> [] \<and> hd r \<in> set ''bB'' then parseRadix 2 (tl r)
          else if c = CHR ''+'' then parseUnsignedDecimal r
          else if c = CHR ''-'' then js_negate (parseUnsignedDecimal r)
          else parseUnsignedDecimal (c # r))"

fun Number :: "cell \<Rightarrow> jsnum" where
  "Number (Num n) = n"
| "Number (Str s) = StringToNumber s"

section \<open>The regular expression \<^verbatim>\<open>/#(.*?)#/g\<close>\<close>

text \<open>
  \<^verbatim>\<open>extractExpectedVariables\<close> and \<^verbatim>\<open>replaceExpressionVariables\<close> both run the
  global regular expression \<^verbatim>\<open>/#(.*?)#/g\<close> over the expression. A match starts at
  a \<^verbatim>\<open>#\<close> and runs lazily to the next \<^verbatim>\<open>#\<close>; the dot does not match a
  line terminator, so an opening \<^verbatim>\<open>#\<close> with a line terminator (or the end of the
  string) before the next \<^verbatim>\<open>#\<close> starts no match, and the scan goes on one
  character later. Matches do not overlap. Of the line terminators only LF and CR are
  modelled.
\<close>

datatype js_error = TypeError

definition isLineTerminator :: "char \<Rightarrow> bool" where
  "isLineTerminator c = (of_char c \<in> {10, 13 :: nat})"

text \<open>The text after an opening \<^verbatim>\<open>#\<close>: what \<^verbatim>\<open>(.*?)\<close> captures, and the rest
  of the string after the closing \<^verbatim>\<open>#\<close>.\<close>

fun lazyCapture :: "string \<Rightarrow> (string \<times> string) option" where
  "lazyCapture [] = None"
| "lazyCapture (c # cs) =
     (if c = CHR ''#'' then Some ([], cs)
      else if isLineTerminator c then None
      else (case lazyCapture cs of
              None \<Rightarrow> None
            | Some (captured, rest) \<Rightarrow> Some (c # captured, rest)))"

lemma lazyCapture_shorter:
  "lazyCapture cs = Some (captured, rest) \<Longrightarrow> length rest < length cs"
  by (induction cs arbitrary: captured)
     (auto split: if_splits option.splits prod.splits)

text \<open>The string cut into its matches (each the whole matched text, both \<^verbatim>\<open>#\<close>
  included) and the characters between them.\<close>

datatype segment = Unmatched char | Matched string

function regexScan :: "string \<Rightarrow> segment list" where
  "regexScan [] = []"
| "regexScan (c # cs) =
     (if c = CHR ''#'' then
        (case lazyCapture cs of
           Some (captured, rest) \<Rightarrow> Matched (CHR ''#'' # captured @ ''#'') # regexScan rest
         | None \<Rightarrow> Unmatched c # regexScan cs)
      else Unmatched c # regexScan cs)"
  by pat_completeness auto
termination
  by (relation "measure length") (auto dest: lazyCapture_shorter)

text \<open>\<^verbatim>\<open>s.match(regex)\<close> with the global flag: every match, or null when there is
  none.\<close>

fun matchedTexts :: "segment list \<Rightarrow> string list" where
  "matchedTexts [] = []"
| "matchedTexts (Unmatched c # segs) = matchedTexts segs"
| "matchedTexts (Matched m # segs) = m # matchedTexts segs"

definition String_match :: "string \<Rightarrow> string list option" where
  "String_match s =
     (case matchedTexts (regexScan s) of [] \<Rightarrow> None | m # ms \<Rightarrow> Some (m # ms))"

text \<open>\<^verbatim>\<open>m.replace(/#/g, '')\<close>.\<close>

definition removeHashes :: "string \<Rightarrow> string" where
  "removeHashes m = filter (\<lambda>c. c \<noteq> CHR ''#'') m"

text \<open>\<^verbatim>\<open>s.replace(regex, callback)\<close>: each match is replaced by what the callback
  returns for it; the first callback that throws ends the replacement.\<close>

fun replaceSegments :: "(string \<Rightarrow> js_error + string) \<Rightarrow> segment list \<Rightarrow> js_error + string" where
  "replaceSegments callback [] = Inr []"
| "replaceSegments callback (Unmatched c # segs) =
     (case replaceSegments callback segs of
        Inl e \<Rightarrow> Inl e
      | Inr replaced \<Rightarrow> Inr (c # replaced))"
| "replaceSegments callback (Matched m # segs) =
     (case callback m of
        Inl e \<Rightarrow> Inl e
      | Inr replacement \<Rightarrow>
          (case replaceSegments callback segs of
             Inl e \<Rightarrow> Inl e
           | Inr replaced \<Rightarrow> Inr (replacement @ replaced)))"

definition String_replace :: "string \<Rightarrow> (string \<Rightarrow> js_error + string) \<Rightarrow> js_error + string" where
  "String_replace s callback = replaceSegments callback (regexScan s)"

text \<open>\<^verbatim>\<open>new Set(names)\<close>: the names in the order of their first occurrence, each
  once.\<close>

definition new_Set :: "string list \<Rightarrow> string list" where
  "new_Set names = foldl (\<lambda>seen name. if name \<in> set seen then seen else seen @ [name]) [] names"

section \<open>Objects as dictionaries\<close>

text \<open>
  The dictionaries \<^verbatim>\<open>variables\<close> and \<^verbatim>\<open>columnNameToIndexMapping\<close> are objects
  that start as \<^verbatim>\<open>{}\<close> and are keyed by column names. Such an object is the map
  of its own properties, and it inherits the members of \<^verbatim>\<open>Object.prototype\<close>: a
  read \<^verbatim>\<open>obj[name]\<close> finds an own property first and an inherited member next, and
  is \<^verbatim>\<open>undefined\<close> only when there is neither. The inherited members are functions,
  but for \<^verbatim>\<open>__proto__\<close>, an accessor that gives the prototype object itself. An
  inherited member is given by the string its \<^verbatim>\<open>toString()\<close> returns (for the
  functions, in the form V8 prints). The dictionary a caller hands to
  \<^verbatim>\<open>withVariables\<close> is taken to be such an object too.
\<close>

definition objectPrototypeFunctions :: "string list" where
  "objectPrototypeFunctions =
     [''constructor'', ''__defineGetter__'', ''__defineSetter__'', ''hasOwnProperty'',
      ''__lookupGetter__'', ''__lookupSetter__'', ''isPrototypeOf'',
      ''propertyIsEnumerable'', ''toString'', ''valueOf'', ''toLocaleString'']"


definition functionText :: "string \<Rightarrow> string" where
  "functionText name =
     ''function '' @ (if name = ''constructor'' then ''Object'' else name)
       @ ''() { [native code] }''"

datatype 'v property = Own 'v | Inherited string | Undefined

text \<open>\<^verbatim>\<open>obj[name]\<close>. The prototype object itself prints as \<^verbatim>\<open>[object Object]\<close>.\<close>

definition getProperty :: "(string \<rightharpoonup> 'v) \<Rightarrow> string \<Rightarrow> 'v property" where
  "getProperty obj name =
     (case obj name of
        Some v \<Rightarrow> Own v
      | None \<Rightarrow>
          if name = ''__proto__'' then Inherited ''[object Object]''
          else if name \<in> set objectPrototypeFunctions then Inherited (functionText name)
          else Undefined)"

text \<open>\<^verbatim>\<open>obj[name] = v\<close> for a string or a number \<open>v\<close>: the assignment makes or
  updates an own property, but under the name \<^verbatim>\<open>__proto__\<close> on an object with no
  own property of that name, where the inherited accessor takes the value and ignores
  it.\<close>

definition setProperty :: "(string \<rightharpoonup> 'v) \<Rightarrow> string \<Rightarrow> 'v \<Rightarrow> (string \<rightharpoonup> 'v)" where
  "setProperty obj name v =
     (if name = ''__proto__'' \<and> obj name = None then obj else obj(name \<mapsto> v))"

section \<open>ColumnCalculation\<close>

record ColumnCalculation =
  expectedVariables :: "string list"
  expression :: string
  variables :: "string \<rightharpoonup> cell"

definition extractExpectedVariables :: "string \<Rightarrow> string list" where
  "extractExpectedVariables expr =
     (let matches = String_match expr;
          cleanedVariables = (case matches of None \<Rightarrow> [] | Some ms \<Rightarrow> map removeHashes ms)
      in new_Set cleanedVariables)"

definition new_ColumnCalculation :: "string \<Rightarrow> ColumnCalculation" where
  "new_ColumnCalculation expr =
     \<lparr>expectedVariables = extractExpectedVariables expr, expression = expr,
      variables = Map.empty\<rparr>"

definition withVariables :: "(string \<rightharpoonup> cell) \<Rightarrow> ColumnCalculation \<Rightarrow> ColumnCalculation" where
  "withVariables vs c = c\<lparr>variables := vs\<rparr>"

text \<open>The callback reads \<^verbatim>\<open>this.variables[name].toString()\<close>; where the read is
  \<^verbatim>\<open>undefined\<close> the method call throws a TypeError.\<close>

definition replaceExpressionVariables :: "ColumnCalculation \<Rightarrow> js_error + string" where
  "replaceExpressionVariables c =
     String_replace (expression c)
       (\<lambda>m. case getProperty (variables c) (removeHashes m) of
               Undefined \<Rightarrow> Inl TypeError
             | Own v \<Rightarrow> Inr (String_cell v)
             | Inherited text \<Rightarrow> Inr text)"

text \<open>
  \<^verbatim>\<open>math.evaluate\<close> belongs to the library mathjs, not to this repository: it is a
  parameter of the model. It throws or returns a value; a returned value is
  \<^verbatim>\<open>undefined\<close>, a number, or another object, given by the string \<^verbatim>\<open>String\<close>
  makes of it.
\<close>

datatype mathjs_value = MUndefined | MNumber jsnum | MOther string

datatype mathjs_outcome = Throws | Returns mathjs_value

type_synonym evaluator = "string \<Rightarrow> mathjs_outcome"

fun String_result :: "mathjs_value \<Rightarrow> string" where
  "String_result MUndefined = ''undefined''"
| "String_result (MNumber n) = String_num n"
| "String_result (MOther s) = s"

definition ColumnCalculation_calculate :: "evaluator \<Rightarrow> ColumnCalculation \<Rightarrow> string" where
  "ColumnCalculation_calculate evaluate c =
     (case replaceExpressionVariables c of
        Inl e \<Rightarrow> ''ERROR''
      | Inr replaced \<Rightarrow>
          (case evaluate replaced of
             Throws \<Rightarrow> ''ERROR''
           | Returns result \<Rightarrow>
               if result = MUndefined then ''ERROR'' else String_result result))"

section \<open>ColumnAggregator\<close>

datatype ColumnAggregations = AggNone | AggMax | AggAverage | AggMin | AggSum

record ColumnAggregator =
  operation :: ColumnAggregations

text \<open>What \<^verbatim>\<open>calculate\<close> returns: the empty fragment, or
  \<^verbatim>\<open><strong>{operation}: {result}</strong>\<close>.\<close>

datatype jsx = Fragment | Strong ColumnAggregations string

definition Object_values :: "('k \<times> 'v) list \<Rightarrow> 'v list" where
  "Object_values obj = map snd obj"

definition Object_keys :: "('k \<times> 'v) list \<Rightarrow> 'k list" where
  "Object_keys obj = map fst obj"

text \<open>The body of the \<^verbatim>\<open>try\<close> block: the result string, or no string where the
  \<^verbatim>\<open>default\<close> case returns the empty fragment.\<close>

fun aggregateTry :: "ColumnAggregations \<Rightarrow> ('k \<times> cell) list \<Rightarrow> js_error + string option" where
  "aggregateTry AggMax rows =
     (let result = String_num (foldl (\<lambda>max value. if js_gt (Number value) max then Number value else max)
                                 NegInfinity (Object_values rows))
      in Inr (Some (if result = ''-Infinity'' then ''NaN'' else result)))"
| "aggregateTry AggMin rows =
     (let result = String_num (foldl (\<lambda>min value. if js_lt (Number value) min then Number value else min)
                                 PosInfinity (Object_values rows))
      in Inr (Some (if result = ''Infinity'' then ''NaN'' else result)))"
| "aggregateTry AggSum rows =
     Inr (Some (String_num (foldl (\<lambda>sum value. js_add (Number value) sum) (Finite 0)
                              (Object_values rows))))"
| "aggregateTry AggAverage rows =
     Inr (Some (String_num (js_div
        (foldl (\<lambda>sum value. js_add (Number value) sum) (Finite 0) (Object_values rows))
        (Finite (of_nat (length (Object_values rows)))))))"
| "aggregateTry AggNone rows = Inr None"

definition ColumnAggregator_calculate :: "ColumnAggregator \<Rightarrow> ('k \<times> cell) list \<Rightarrow> jsx" where
  "ColumnAggregator_calculate agg rows =
     (case aggregateTry (operation agg) rows of
        Inl e \<Rightarrow> Strong (operation agg) ''ERROR''
      | Inr None \<Rightarrow> Fragment
      | Inr (Some result) \<Rightarrow> Strong (operation agg) result)"

section \<open>ColumnData\<close>

text \<open>
  \<^verbatim>\<open>rows\<close> is a dictionary from row index to cell. The source keys it by
  \<^verbatim>\<open>String(rowIndex)\<close> and reads the keys back with \<^verbatim>\<open>Number\<close>; the raw data
  is keyed by stringified non-negative integers, on which the two conversions are
  inverse to each other, so the model keys the dictionary by the index itself. The
  dictionary is the list of its entries; an assignment to a key replaces the entry in
  place or appends a new one. JavaScript enumerates integer keys in ascending order, the
  model in the order of the list; the aggregations do not depend on the order
  (\<open>aggregateTry_order\<close> below).
\<close>

datatype ColumnType = TimeColumn | DataColumn | CalculatedColumn | UnsetColumn

type_synonym rowDict = "(nat \<times> cell) list"

record ColumnData =
  columnName :: string
  columnType :: ColumnType
  columnId :: string
  calculation :: ColumnCalculation
  rows :: rowDict
  aggregation :: ColumnAggregator

definition new_ColumnData :: "string \<Rightarrow> ColumnType \<Rightarrow> string \<Rightarrow> ColumnData" where
  "new_ColumnData name type ident =
     \<lparr>columnName = name, columnType = type, columnId = ident,
      calculation = new_ColumnCalculation [], rows = [],
      aggregation = \<lparr>operation = AggNone\<rparr>\<rparr>"

definition withCalculation :: "ColumnCalculation \<Rightarrow> ColumnData \<Rightarrow> ColumnData" where
  "withCalculation c column = column\<lparr>calculation := c\<rparr>"

definition withAggregation :: "ColumnAggregations \<Rightarrow> ColumnData \<Rightarrow> ColumnData" where
  "withAggregation a column = column\<lparr>aggregation := \<lparr>operation = a\<rparr>\<rparr>"

definition setRows :: "rowDict \<Rightarrow> ColumnData \<Rightarrow> ColumnData" where
  "setRows rs column = column\<lparr>rows := rs\<rparr>"

text \<open>\<^verbatim>\<open>withVariables\<close> stores the variables in the column's calculation before
  \<^verbatim>\<open>calculate\<close> reads them, and they stay stored.\<close>

definition fillCalculatedRow :: "evaluator \<Rightarrow> nat \<Rightarrow> (string \<rightharpoonup> cell) \<Rightarrow> ColumnData \<Rightarrow> ColumnData" where
  "fillCalculatedRow evaluate rowIndex vs column =
     (let c = withVariables vs (calculation column)
      in column\<lparr>calculation := c,
                rows := AList.update rowIndex (Str (ColumnCalculation_calculate evaluate c))
                          (rows column)\<rparr>)"

definition ColumnData_getValue :: "ColumnData \<Rightarrow> nat \<Rightarrow> string" where
  "ColumnData_getValue column rowIndex =
     (case map_of (rows column) rowIndex of
        Some v \<Rightarrow> String_cell v
      | None \<Rightarrow> [])"

definition getAggregation :: "ColumnData \<Rightarrow> jsx" where
  "getAggregation column = ColumnAggregator_calculate (aggregation column) (rows column)"

section \<open>DataTable\<close>

text \<open>
  \<^verbatim>\<open>data\<close> maps a column index to the row dictionary of that column, and
  \<^verbatim>\<open>columnNameToIndexMapping\<close> holds the own properties of the name lookup. A read
  \<^verbatim>\<open>this.columns[i]\<close> past the end of the array, or with an inherited member of
  the name lookup for \<open>i\<close>, is \<^verbatim>\<open>undefined\<close>, and the method call on it throws a
  TypeError.
\<close>

record DataTable =
  columns :: "ColumnData list"
  data :: "nat \<rightharpoonup> rowDict"
  columnNameToIndexMapping :: "string \<rightharpoonup> nat"
  maxRow :: nat
  isThereColumnAggregations :: bool

definition new_DataTable :: "(nat \<rightharpoonup> rowDict) \<Rightarrow> DataTable" where
  "new_DataTable d =
     \<lparr>columns = [], data = d, columnNameToIndexMapping = Map.empty, maxRow = 0,
      isThereColumnAggregations = False\<rparr>"

definition updateColumnNameToIndexMapping :: "DataTable \<Rightarrow> DataTable" where
  "updateColumnNameToIndexMapping t =
     t\<lparr>columnNameToIndexMapping :=
          foldl (\<lambda>mapping i. setProperty mapping (columnName (columns t ! i)) i) Map.empty
            [0..<length (columns t)]\<rparr>"

definition addColumns :: "ColumnData list \<Rightarrow> DataTable \<Rightarrow> DataTable" where
  "addColumns cs t = updateColumnNameToIndexMapping (t\<lparr>columns := columns t @ cs\<rparr>)"

fun collectVariables ::
  "DataTable \<Rightarrow> nat \<Rightarrow> string list \<Rightarrow> (string \<rightharpoonup> cell) \<Rightarrow> js_error + (string \<rightharpoonup> cell)" where
  "collectVariables t rowIndex [] vs = Inr vs"
| "collectVariables t rowIndex (name # names) vs =
     (case getProperty (columnNameToIndexMapping t) name of
        Undefined \<Rightarrow> collectVariables t rowIndex names vs
      | Own columnIndex \<Rightarrow>
          if columnIndex < length (columns t)
          then collectVariables t rowIndex names
                 (setProperty vs name
                    (Str (ColumnData_getValue (columns t ! columnIndex) rowIndex)))
          else Inl TypeError
      | Inherited text \<Rightarrow> Inl TypeError)"

definition getCalculationVariables ::
  "DataTable \<Rightarrow> nat \<Rightarrow> ColumnData \<Rightarrow> js_error + (string \<rightharpoonup> cell)" where
  "getCalculationVariables t rowIndex column =
     collectVariables t rowIndex (expectedVariables (calculation column)) Map.empty"

subsection \<open>compile\<close>

text \<open>
  \<^verbatim>\<open>compile\<close> changes the table in place, so an exception leaves the table as the
  assignments made before it have left it: a call that throws gives \<open>Inl\<close> of the
  exception and of that table, a call that returns gives \<open>Inr\<close> of the table.
\<close>

type_synonym 's completion = "(js_error \<times> 's) + 's"


text \<open>A loop whose body may throw: the first exception ends it.\<close>

fun forEach :: "('a \<Rightarrow> 's \<Rightarrow> 's completion) \<Rightarrow> 'a list \<Rightarrow> 's \<Rightarrow> 's completion" where
  "forEach body [] s = Inr s"
| "forEach body (x # xs) s =
     (case body x s of
        Inl thrown \<Rightarrow> Inl thrown
      | Inr s' \<Rightarrow> forEach body xs s')"

text \<open>The body of the first loop, for the column at index \<open>i\<close>. The keys are the row
  indices themselves, so \<^verbatim>\<open>Number(current)\<close> is \<open>current\<close>.\<close>

definition assignRows :: "nat \<Rightarrow> DataTable \<Rightarrow> DataTable" where
  "assignRows i t =
     (case data t i of
        None \<Rightarrow> t
      | Some rs \<Rightarrow>
          let newMaxRow = foldl (\<lambda>max current. if current > max then current else max) 0
                            (Object_keys rs)
          in t\<lparr>columns := (columns t)[i := setRows rs (columns t ! i)],
               maxRow := (if newMaxRow > maxRow t then newMaxRow else maxRow t)\<rparr>)"

text \<open>
  The body of the inner loop of the second loop, for the column at index \<open>j\<close> and the
  row \<open>r\<close>. \<^verbatim>\<open>setRows\<close> stored a reference: where the raw data has a dictionary for
  index \<open>j\<close>, the column's \<^verbatim>\<open>rows\<close> and \<^verbatim>\<open>data[j]\<close> are one object, and the
  assignment of \<^verbatim>\<open>fillCalculatedRow\<close> is seen through both.
\<close>

definition fillRow :: "evaluator \<Rightarrow> nat \<Rightarrow> nat \<Rightarrow> DataTable \<Rightarrow> DataTable completion" where
  "fillRow evaluate j r t =
     (case getCalculationVariables t r (columns t ! j) of
        Inl e \<Rightarrow> Inl (e, t)
      | Inr vs \<Rightarrow>
          let column = fillCalculatedRow evaluate r vs (columns t ! j)
          in Inr (t\<lparr>columns := (columns t)[j := column],
                    data := (case data t j of
                               None \<Rightarrow> data t
                             | Some rs \<Rightarrow> (data t)(j \<mapsto> rows column))\<rparr>))"

text \<open>The body of the second loop, for the column at index \<open>j\<close>.\<close>

definition compileColumn :: "evaluator \<Rightarrow> nat \<Rightarrow> DataTable \<Rightarrow> DataTable completion" where
  "compileColumn evaluate j t =
     (let t1 = (if operation (aggregation (columns t ! j)) \<noteq> AggNone
                then t\<lparr>isThereColumnAggregations := True\<rparr> else t)
      in if columnType (columns t1 ! j) = CalculatedColumn
         then forEach (fillRow evaluate j) [0..<Suc (maxRow t1)] t1
         else Inr t1)"

definition compile :: "evaluator \<Rightarrow> DataTable \<Rightarrow> DataTable completion" where
  "compile evaluate t =
     (let t0 = t\<lparr>maxRow := 0\<rparr>;
          t1 = foldl (\<lambda>s i. assignRows i s) t0 [0..<length (columns t0)];
          t2 = t1\<lparr>isThereColumnAggregations := False\<rparr>
      in forEach (compileColumn evaluate) [0..<length (columns t2)] t2)"

subsection \<open>Reading the compiled table\<close>

text \<open>What \<^verbatim>\<open>getValue\<close> returns: a string or an element.\<close>

datatype rendered = Text string | Element jsx

definition DataTable_getValue :: "DataTable \<Rightarrow> nat \<Rightarrow> nat \<Rightarrow> js_error + rendered" where
  "DataTable_getValue t rowIndex columnIndex =
     (if rowIndex > maxRow t then
        (if columnIndex < length (columns t)
         then Inr (Element (getAggregation (columns t ! columnIndex)))
         else Inl TypeError)
      else
        (if columnIndex < length (columns t)
         then Inr (Text (ColumnData_getValue (columns t ! columnIndex) rowIndex))
         else Inl TypeError))"


text \<open>Compiling a table \<open>n\<close> times in a row, and reading a cell after that.\<close>

fun compileTimes :: "evaluator \<Rightarrow> nat \<Rightarrow> DataTable \<Rightarrow> DataTable completion" where
  "compileTimes evaluate 0 t = Inr t"
| "compileTimes evaluate (Suc n) t =
     (case compile evaluate t of
        Inl thrown \<Rightarrow> Inl thrown
      | Inr t' \<Rightarrow> compileTimes evaluate n t')"

definition getValueAfter :: "evaluator \<Rightarrow> nat \<Rightarrow> DataTable \<Rightarrow> nat \<Rightarrow> nat \<Rightarrow> js_error + rendered" where
  "getValueAfter evaluate n t rowIndex columnIndex =
     (case compileTimes evaluate n t of
        Inl thrown \<Rightarrow> Inl (fst thrown)
      | Inr t' \<Rightarrow> DataTable_getValue t' rowIndex columnIndex)"

section \<open>An evaluator for sums\<close>

text \<open>
  The concrete examples need some values of \<^verbatim>\<open>math.evaluate\<close>. \<open>sumEvaluator\<close>
  gives the values mathjs gives on the empty string (no result) and on a sum of
  unsigned decimal integer literals, with spaces around the literals. On every other
  string it answers \<open>Throws\<close>; no theorem below relies on that answer.
\<close>

fun splitPlus :: "string \<Rightarrow> string \<Rightarrow> string list" where
  "splitPlus current [] = [current]"
| "splitPlus current (c # cs) =
     (if c = CHR ''+'' then current # splitPlus [] cs else splitPlus (current @ [c]) cs)"

definition trimSpaces :: "string \<Rightarrow> string" where
  "trimSpaces s =
     rev (dropWhile (\<lambda>c. c = CHR '' '') (rev (dropWhile (\<lambda>c. c = CHR '' '') s)))"

definition sumEvaluator :: evaluator where
  "sumEvaluator s =
     (if s = [] then Returns MUndefined
      else
        let literals = map trimSpaces (splitPlus [] s)
        in if list_all (\<lambda>l. l \<noteq> [] \<and> list_all (isDigitOf 10) l) literals
           then Returns (MNumber (Finite (of_nat (sum_list (map (digitsValue 10) literals)))))
           else Throws)"


section \<open>Predicates on tables\<close>

text \<open>The name lookup leads to columns of the table, as it does after \<^verbatim>\<open>addColumns\<close>.\<close>

definition wellFormed :: "DataTable \<Rightarrow> bool" where
  "wellFormed t = (\<forall>name i. columnNameToIndexMapping t name = Some i \<longrightarrow> i < length (columns t))"


text \<open>What no step of \<^verbatim>\<open>compile\<close> changes: the number of columns, the name lookup, and
  of each column the name, the type, the aggregation, the expression and its expected
  variables.\<close>

definition sameShape :: "DataTable \<Rightarrow> DataTable \<Rightarrow> bool" where
  "sameShape t t' =
     (length (columns t') = length (columns t)
      \<and> columnNameToIndexMapping t' = columnNameToIndexMapping t
      \<and> (\<forall>j < length (columns t).
            columnName (columns t' ! j) = columnName (columns t ! j)
          \<and> columnType (columns t' ! j) = columnType (columns t ! j)
          \<and> aggregation (columns t' ! j) = aggregation (columns t ! j)
          \<and> expression (calculation (columns t' ! j)) = expression (calculation (columns t ! j))
          \<and> expectedVariables (calculation (columns t' ! j))
              = expectedVariables (calculation (columns t ! j))))"

text \<open>The row indices of the raw data of the column at index \<open>i\<close>.\<close>

definition boundKeys :: "DataTable \<Rightarrow> nat \<Rightarrow> nat set" where
  "boundKeys t i = (case data t i of None \<Rightarrow> {} | Some rs \<Rightarrow> set (Object_keys rs))"

text \<open>The greatest row index of the raw data of the table's columns, 0 when there is
  none.\<close>

definition rowExtent :: "DataTable \<Rightarrow> nat" where
  "rowExtent t = Max (insert 0 (\<Union>i \<in> {..<length (columns t)}. boundKeys t i))"

text \<open>The column at index \<open>i\<close> after the first loop of \<^verbatim>\<open>compile\<close> has passed the
  indices below \<open>k\<close>.\<close>

definition assigned :: "DataTable \<Rightarrow> nat \<Rightarrow> nat \<Rightarrow> ColumnData" where
  "assigned t k i =
     (if i < k then (case data t i of None \<Rightarrow> columns t ! i
                     | Some rs \<Rightarrow> setRows rs (columns t ! i))
      else columns t ! i)"

section \<open>The tables of the examples\<close>

text \<open>The table of the end-to-end scenario: two data columns and their sum.\<close>

definition endToEndTable :: DataTable where
  "endToEndTable = addColumns
     [new_ColumnData ''Density'' DataColumn ''var_col_1'',
      new_ColumnData ''Volume'' DataColumn ''var_col_2'',
      withCalculation (new_ColumnCalculation ''#Density# + #Volume#'')
        (new_ColumnData ''Total'' CalculatedColumn ''Total'')]
     (new_DataTable [0 \<mapsto> [(0, Num (Finite 10)), (1, Num (Finite 20))],
                     1 \<mapsto> [(0, Num (Finite 100)), (1, Num (Finite 200))]])"

text \<open>A table whose second column has rows at the indices 0, 1 and 5, with a chosen
  aggregation.\<close>

definition sparseTable :: "ColumnAggregations \<Rightarrow> DataTable" where
  "sparseTable a = addColumns
     [new_ColumnData ''Time'' TimeColumn ''time_col'',
      withAggregation a (new_ColumnData ''Volume'' DataColumn ''var_col_2'')]
     (new_DataTable [0 \<mapsto> [(0, Num (Finite 1)), (1, Num (Finite 2))],
                     1 \<mapsto> [(0, Num (Finite 7)), (1, Num (Finite 8)), (5, Num (Finite 9))]])"

text \<open>Two calculated columns, the first referring to the second.\<close>

definition forwardTable :: DataTable where
  "forwardTable = addColumns
     [withCalculation (new_ColumnCalculation ''#B#'') (new_ColumnData ''A'' CalculatedColumn ''A''),
      withCalculation (new_ColumnCalculation ''1'') (new_ColumnData ''B'' CalculatedColumn ''B'')]
     (new_DataTable Map.empty)"

text \<open>The table of the end-to-end scenario with a fourth column, calculated from the
  calculated column before it.\<close>

definition chainTable :: DataTable where
  "chainTable = addColumns
     [new_ColumnData ''Density'' DataColumn ''var_col_1'',
      new_ColumnData ''Volume'' DataColumn ''var_col_2'',
      withCalculation (new_ColumnCalculation ''#Density# + #Volume#'')
        (new_ColumnData ''Total'' CalculatedColumn ''Total''),
      withCalculation (new_ColumnCalculation ''#Total# + #Total#'')
        (new_ColumnData ''Twice'' CalculatedColumn ''Twice'')]
     (new_DataTable [0 \<mapsto> [(0, Num (Finite 10)), (1, Num (Finite 20))],
                     1 \<mapsto> [(0, Num (Finite 100)), (1, Num (Finite 200))]])"


section \<open>Predicates for compiling twice\<close>

text \<open>Every reference of a calculated column that the name lookup leads to a calculated
  column leads to a column earlier in the list.\<close>

definition refersBackward :: "DataTable \<Rightarrow> bool" where
  "refersBackward t =
     (\<forall>j < length (columns t). columnType (columns t ! j) = CalculatedColumn \<longrightarrow>
        (\<forall>name \<in> set (expectedVariables (calculation (columns t ! j))). \<forall>i.
           columnNameToIndexMapping t name = Some i \<longrightarrow>
           columnType (columns t ! i) = CalculatedColumn \<longrightarrow> i < j))"

text \<open>Row \<open>r\<close> of the column at index \<open>j\<close> holds what its expression gives for the values
  the table has now.\<close>

definition consistentAt :: "evaluator \<Rightarrow> DataTable \<Rightarrow> nat \<Rightarrow> nat \<Rightarrow> bool" where
  "consistentAt evaluate u j r =
     (\<exists>vs. getCalculationVariables u r (columns u ! j) = Inr vs
        \<and> map_of (rows (columns u ! j)) r
            = Some (Str (ColumnCalculation_calculate evaluate
                           (withVariables vs (calculation (columns u ! j))))))"

text \<open>Where the raw data has a dictionary for a column, it is the column's \<^verbatim>\<open>rows\<close>:
  the state of the references after the first loop of \<^verbatim>\<open>compile\<close>.\<close>

definition aliased :: "DataTable \<Rightarrow> bool" where
  "aliased u = (\<forall>j < length (columns u). \<forall>rs. data u j = Some rs \<longrightarrow> rows (columns u ! j) = rs)"

text \<open>The raw data of \<open>u\<close> has the row indices of the raw data of \<open>p\<close> and, besides
  them, only indices up to \<^verbatim>\<open>maxRow\<close>.\<close>

definition keysWithin :: "DataTable \<Rightarrow> DataTable \<Rightarrow> bool" where
  "keysWithin p u =
     (\<forall>i < length (columns p).
        boundKeys p i \<subseteq> boundKeys u i \<and> boundKeys u i \<subseteq> boundKeys p i \<union> {..maxRow p})"

text \<open>The invariant of the second loop of the first \<^verbatim>\<open>compile\<close>.\<close>

definition settling :: "evaluator \<Rightarrow> DataTable \<Rightarrow> nat \<Rightarrow> DataTable \<Rightarrow> bool" where
  "settling evaluate p k u =
     (sameShape p u \<and> maxRow u = maxRow p \<and> aliased u \<and> keysWithin p u
      \<and> (\<forall>j < k. columnType (columns p ! j) = CalculatedColumn \<longrightarrow>
            (\<forall>r \<le> maxRow p. consistentAt evaluate u j r)))"

text \<open>The table after the first loop of \<^verbatim>\<open>compile\<close> and the reset of the flag.\<close>

definition assignedTable :: "DataTable \<Rightarrow> DataTable" where
  "assignedTable t =
     (foldl (\<lambda>s i. assignRows i s) (t\<lparr>maxRow := 0\<rparr>) [0..<length (columns t)])
       \<lparr>isThereColumnAggregations := False\<rparr>"

text \<open>A table in which \<^verbatim>\<open>compile\<close> finds nothing left to change.\<close>

definition settled :: "evaluator \<Rightarrow> DataTable \<Rightarrow> bool" where
  "settled evaluate s =
     (aliased s \<and> rowExtent s = maxRow s
      \<and> (\<forall>j < length (columns s). columnType (columns s ! j) = CalculatedColumn \<longrightarrow>
            (\<forall>r \<le> maxRow s. consistentAt evaluate s j r)))"

text \<open>The invariant of the second loop of a \<^verbatim>\<open>compile\<close> that starts from a settled
  table.\<close>

definition frozen :: "DataTable \<Rightarrow> DataTable \<Rightarrow> bool" where
  "frozen p u =
     (sameShape p u \<and> maxRow u = maxRow p \<and> data u = data p
      \<and> (\<forall>j < length (columns p). rows (columns u ! j) = rows (columns p ! j)))"

section \<open>Numbers as strings\<close>

lemmas show_simps = showFinite_def showNat.simps digitChar_def

lemma showNat_digits: "set (showNat n) \<subseteq> set ''0123456789''"
proof (induction n rule: showNat.induct)
  case (1 n)
  have d: "\<And>k. digitChar k \<in> set ''0123456789''"
    unfolding digitChar_def by (rule nth_mem) simp
  show ?case
  proof (cases "n < 10")
    case True
    then show ?thesis using d [of n] by (subst showNat.simps) simp
  next
    case False
    then show ?thesis using 1 d [of "n mod 10"] by (subst showNat.simps) simp
  qed
qed

lemma digitChar_digit: "digitChar k \<in> set ''0123456789''"
  unfolding digitChar_def by (rule nth_mem) simp

lemma fractionDigits_digits: "set (fractionDigits k r) \<subseteq> set ''0123456789''"
proof -
  define D where "D = set ''0123456789''"
  have d: "digitChar n \<in> D" for n unfolding D_def by (rule digitChar_digit)
  have "set (fractionDigits k r) \<subseteq> D"
    by (induction k arbitrary: r) (simp_all add: d)
  then show ?thesis unfolding D_def .
qed

lemma showFinite_no_R: "CHR ''R'' \<notin> set (showFinite q)"
proof -
  have a: "CHR ''R'' \<notin> set (showNat n)" for n
    using showNat_digits [of n] by auto
  have b: "CHR ''R'' \<notin> set (fractionDigits k r)" for k r
    using fractionDigits_digits [of k r] by auto
  show ?thesis
    by (simp add: showFinite_def Let_def a b)
qed

lemma String_num_not_ERROR: "String_num x \<noteq> ''ERROR''"
proof
  assume "String_num x = ''ERROR''"
  then have "CHR ''R'' \<in> set (String_num x)" by simp
  then show False using showFinite_no_R by (cases x) auto
qed

section \<open>The aggregations\<close>

lemma js_add_NaN_right [simp]: "js_add x NaN = NaN"
  by (cases x) auto

lemma js_gt_NaN_right [simp]: "js_gt x NaN = False"
  by (cases x) auto

lemma sum_from_NaN: "foldl (\<lambda>sum value. js_add (Number value) sum) NaN vs = NaN"
  by (induction vs) auto

lemma sum_with_NaN:
  "v \<in> set vs \<Longrightarrow> Number v = NaN \<Longrightarrow>
   foldl (\<lambda>sum value. js_add (Number value) sum) acc vs = NaN"
proof (induction vs arbitrary: acc)
  case Nil
  then show ?case by simp
next
  case (Cons a vs)
  show ?case
  proof (cases "a = v")
    case True
    then show ?thesis using Cons.prems(2) sum_from_NaN by simp
  next
    case False
    then show ?thesis using Cons by simp
  qed
qed

lemma max_skips_NaN:
  "foldl (\<lambda>max value. if js_gt (Number value) max then Number value else max) acc
     (filter (\<lambda>v. Number v \<noteq> NaN) vs)
   = foldl (\<lambda>max value. if js_gt (Number value) max then Number value else max) acc vs"
  by (induction vs arbitrary: acc) auto

lemma min_skips_NaN:
  "foldl (\<lambda>min value. if js_lt (Number value) min then Number value else min) acc
     (filter (\<lambda>v. Number v \<noteq> NaN) vs)
   = foldl (\<lambda>min value. if js_lt (Number value) min then Number value else min) acc vs"
  by (induction vs arbitrary: acc) (auto simp: js_lt_def)

lemma Object_values_filter:
  "Object_values (filter (\<lambda>(k, v). P v) dict) = filter P (Object_values dict)"
  by (induction dict) (auto simp: Object_values_def)

text \<open>The aggregations do not depend on the order in which the values are enumerated.\<close>

lemma js_add_left_commute: "js_add a (js_add b c) = js_add b (js_add a c)"
  by (cases a; cases b; cases c) simp_all

lemma max_step_commute:
  "(if js_gt y (if js_gt x acc then x else acc) then y else (if js_gt x acc then x else acc))
   = (if js_gt x (if js_gt y acc then y else acc) then x else (if js_gt y acc then y else acc))"
  by (cases x; cases y; cases acc) auto

lemma min_step_commute:
  "(if js_lt y (if js_lt x acc then x else acc) then y else (if js_lt x acc then x else acc))
   = (if js_lt x (if js_lt y acc then y else acc) then x else (if js_lt y acc then y else acc))"
  unfolding js_lt_def by (cases x; cases y; cases acc) auto

lemma foldl_permuted:
  assumes "\<And>x y acc. f (f acc x) y = f (f acc y) x" and "mset xs = mset ys"
  shows "foldl f acc xs = foldl f acc ys"
proof -
  have "fold (\<lambda>x acc. f acc x) xs = fold (\<lambda>x acc. f acc x) ys"
    using assms by (intro fold_multiset_equiv) (auto simp: fun_eq_iff)
  then show ?thesis by (simp add: foldl_conv_fold)
qed

lemma aggregateTry_order:
  assumes "mset (Object_values dict) = mset (Object_values dict')"
  shows "aggregateTry op dict = aggregateTry op dict'"
proof -
  have len: "length (Object_values dict) = length (Object_values dict')"
    using assms by (metis size_mset)
  have s: "foldl (\<lambda>sum value. js_add (Number value) sum) acc (Object_values dict)
         = foldl (\<lambda>sum value. js_add (Number value) sum) acc (Object_values dict')" for acc
    using assms by (intro foldl_permuted) (simp_all add: js_add_left_commute)
  have mx: "foldl (\<lambda>max value. if js_gt (Number value) max then Number value else max) acc
              (Object_values dict)
          = foldl (\<lambda>max value. if js_gt (Number value) max then Number value else max) acc
              (Object_values dict')" for acc
    using assms by (intro foldl_permuted) (simp_all add: max_step_commute)
  have mn: "foldl (\<lambda>min value. if js_lt (Number value) min then Number value else min) acc
              (Object_values dict)
          = foldl (\<lambda>min value. if js_lt (Number value) min then Number value else min) acc
              (Object_values dict')" for acc
    using assms by (intro foldl_permuted) (simp_all add: min_step_commute)
  show ?thesis by (cases op) (simp_all add: s mx mn len)
qed

text \<open>
  Claim C5. The aggregation of the empty dictionary displays \<^verbatim>\<open>NaN\<close> for Max (not
  \<^verbatim>\<open>-Infinity\<close>) and for Min (not \<^verbatim>\<open>Infinity\<close>) and \<^verbatim>\<open>0\<close> for Sum; the Average
  of the dictionary \<^verbatim>\<open>{a: 2, b: 4}\<close> displays \<^verbatim>\<open>3\<close>.
\<close>

theorem aggregation_edge_cases:
  "ColumnAggregator_calculate \<lparr>operation = AggMax\<rparr> ([] :: (string \<times> cell) list)
     = Strong AggMax ''NaN''
   \<and> ColumnAggregator_calculate \<lparr>operation = AggMax\<rparr> ([] :: (string \<times> cell) list)
     \<noteq> Strong AggMax ''-Infinity''
   \<and> ColumnAggregator_calculate \<lparr>operation = AggMin\<rparr> ([] :: (string \<times> cell) list)
     = Strong AggMin ''NaN''
   \<and> ColumnAggregator_calculate \<lparr>operation = AggMin\<rparr> ([] :: (string \<times> cell) list)
     \<noteq> Strong AggMin ''Infinity''
   \<and> ColumnAggregator_calculate \<lparr>operation = AggSum\<rparr> ([] :: (string \<times> cell) list)
     = Strong AggSum ''0''
   \<and> ColumnAggregator_calculate \<lparr>operation = AggAverage\<rparr>
        [(''a'', Num (Finite 2)), (''b'', Num (Finite 4))]
     = Strong AggAverage ''3''"
  by (simp add: ColumnAggregator_calculate_def Object_values_def show_simps)

text \<open>
  Claim C10. For every dictionary of rows the \<^verbatim>\<open>try\<close> block of
  \<^verbatim>\<open>ColumnAggregator.calculate\<close> throws nothing, so the \<^verbatim>\<open>catch\<close> branch is never
  taken, and the displayed result is never the string \<^verbatim>\<open>ERROR\<close>. A value that
  \<^verbatim>\<open>Number\<close> coerces to NaN makes Sum and Average display \<^verbatim>\<open>NaN\<close>, and Max and
  Min display what they display without the values coerced to NaN.
\<close>

theorem aggregation_never_ERROR:
  "aggregateTry op dict \<noteq> Inl e
   \<and> ColumnAggregator_calculate agg dict \<noteq> Strong op' ''ERROR''
   \<and> ((\<exists>v \<in> set (Object_values dict). Number v = NaN) \<longrightarrow>
        ColumnAggregator_calculate \<lparr>operation = AggSum\<rparr> dict = Strong AggSum ''NaN''
      \<and> ColumnAggregator_calculate \<lparr>operation = AggAverage\<rparr> dict = Strong AggAverage ''NaN'')
   \<and> ColumnAggregator_calculate \<lparr>operation = AggMax\<rparr> (filter (\<lambda>(k, v). Number v \<noteq> NaN) dict)
        = ColumnAggregator_calculate \<lparr>operation = AggMax\<rparr> dict
   \<and> ColumnAggregator_calculate \<lparr>operation = AggMin\<rparr> (filter (\<lambda>(k, v). Number v \<noteq> NaN) dict)
        = ColumnAggregator_calculate \<lparr>operation = AggMin\<rparr> dict"
proof (intro conjI impI)
  show "aggregateTry op dict \<noteq> Inl e"
    by (cases op) (simp_all add: Let_def)
  show "ColumnAggregator_calculate agg dict \<noteq> Strong op' ''ERROR''"
    by (cases "operation agg")
       (simp_all add: ColumnAggregator_calculate_def Let_def String_num_not_ERROR)
next
  assume "\<exists>v \<in> set (Object_values dict). Number v = NaN"
  then obtain v where v: "v \<in> set (Object_values dict)" "Number v = NaN" by blast
  show "ColumnAggregator_calculate \<lparr>operation = AggSum\<rparr> dict = Strong AggSum ''NaN''"
    by (simp add: ColumnAggregator_calculate_def sum_with_NaN [OF v])
  show "ColumnAggregator_calculate \<lparr>operation = AggAverage\<rparr> dict = Strong AggAverage ''NaN''"
    by (simp add: ColumnAggregator_calculate_def sum_with_NaN [OF v])
next
  show "ColumnAggregator_calculate \<lparr>operation = AggMax\<rparr> (filter (\<lambda>(k, v). Number v \<noteq> NaN) dict)
       = ColumnAggregator_calculate \<lparr>operation = AggMax\<rparr> dict"
    by (simp add: ColumnAggregator_calculate_def Object_values_filter max_skips_NaN)
  show "ColumnAggregator_calculate \<lparr>operation = AggMin\<rparr> (filter (\<lambda>(k, v). Number v \<noteq> NaN) dict)
       = ColumnAggregator_calculate \<lparr>operation = AggMin\<rparr> dict"
    by (simp add: ColumnAggregator_calculate_def Object_values_filter min_skips_NaN)
qed

theorem aggregation_never_ERROR_witness:
  "aggregateTry AggSum [(0::nat, Str ''ERROR''), (1, Num (Finite 2))] \<noteq> Inl TypeError
   \<and> ColumnAggregator_calculate \<lparr>operation = AggSum\<rparr>
        [(0::nat, Str ''ERROR''), (1, Num (Finite 2))] = Strong AggSum ''NaN''
   \<and> ColumnAggregator_calculate \<lparr>operation = AggAverage\<rparr>
        [(0::nat, Str ''ERROR''), (1, Num (Finite 2))] = Strong AggAverage ''NaN''
   \<and> ColumnAggregator_calculate \<lparr>operation = AggMax\<rparr>
        [(0::nat, Str ''ERROR''), (1, Num (Finite 2))] = Strong AggMax ''2''"
proof -
  have n: "Number (Str ''ERROR'') = NaN"
    by (simp add: StringToNumber_def trimString_def isStrWhiteSpace_def
        parseUnsignedDecimal_def isDigitOf_def digitValue_def)
  have m: "\<exists>v \<in> set (Object_values [(0::nat, Str ''ERROR''), (1, Num (Finite 2))]). Number v = NaN"
    using n by (simp add: Object_values_def)
  have x: "ColumnAggregator_calculate \<lparr>operation = AggMax\<rparr> [(1::nat, Num (Finite 2))]
           = Strong AggMax ''2''"
    by (simp add: ColumnAggregator_calculate_def Object_values_def show_simps)
  show ?thesis
    using aggregation_never_ERROR [of AggSum "[(0::nat, Str ''ERROR''), (1, Num (Finite 2))]"
        TypeError "\<lparr>operation = AggSum\<rparr>" AggSum] m n x
    by simp
qed

section \<open>The variables of an expression\<close>

lemma new_Set_acc:
  "distinct acc \<Longrightarrow>
   distinct (foldl (\<lambda>seen name. if name \<in> set seen then seen else seen @ [name]) acc names)
   \<and> set (foldl (\<lambda>seen name. if name \<in> set seen then seen else seen @ [name]) acc names)
       = set acc \<union> set names"
  by (induction names arbitrary: acc) auto

lemma new_Set_distinct: "distinct (new_Set names)"
  unfolding new_Set_def using new_Set_acc [of "[]" names] by simp

lemma new_Set_set: "set (new_Set names) = set names"
  unfolding new_Set_def using new_Set_acc [of "[]" names] by simp

text \<open>
  Claim C8. \<^verbatim>\<open>extractExpectedVariables\<close> returns each name once, and the names it
  returns are the matches of the regular expression without their \<^verbatim>\<open>#\<close>: on
  \<^verbatim>\<open>#A# + #B# * #A#\<close> exactly the set of \<^verbatim>\<open>A\<close> and \<^verbatim>\<open>B\<close>, on \<^verbatim>\<open>1+2\<close> no
  name.
\<close>

theorem extractExpectedVariables_names:
  "distinct (extractExpectedVariables e)
   \<and> set (extractExpectedVariables e) = removeHashes ` set (matchedTexts (regexScan e))
   \<and> set (extractExpectedVariables ''#A# + #B# * #A#'') = {''A'', ''B''}
   \<and> extractExpectedVariables ''1+2'' = []"
proof (intro conjI)
  show "distinct (extractExpectedVariables e)"
    by (simp add: extractExpectedVariables_def Let_def new_Set_distinct)
  show "set (extractExpectedVariables e) = removeHashes ` set (matchedTexts (regexScan e))"
    by (cases "matchedTexts (regexScan e)")
       (simp_all add: extractExpectedVariables_def String_match_def new_Set_set)
  show "set (extractExpectedVariables ''#A# + #B# * #A#'') = {''A'', ''B''}"
    by (simp add: extractExpectedVariables_def String_match_def new_Set_def removeHashes_def
        isLineTerminator_def)
  show "extractExpectedVariables ''1+2'' = []"
    by (simp add: extractExpectedVariables_def String_match_def new_Set_def)
qed

lemma regexScan_prefix:
  "CHR ''#'' \<notin> set pre \<Longrightarrow> regexScan (pre @ rest) = map Unmatched pre @ regexScan rest"
  by (induction pre) auto

lemma lazyCapture_name:
  "CHR ''#'' \<notin> set name \<Longrightarrow> \<forall>ch \<in> set name. \<not> isLineTerminator ch \<Longrightarrow>
   lazyCapture (name @ CHR ''#'' # post) = Some (name, post)"
  by (induction name) auto

lemma regexScan_reference:
  assumes "CHR ''#'' \<notin> set pre" "CHR ''#'' \<notin> set name" "\<forall>ch \<in> set name. \<not> isLineTerminator ch"
  shows "regexScan (pre @ CHR ''#'' # name @ CHR ''#'' # post)
       = map Unmatched pre @ Matched (CHR ''#'' # name @ ''#'') # regexScan post"
  using assms by (simp add: regexScan_prefix lazyCapture_name)

lemma replaceSegments_prefix:
  "replaceSegments callback (map Unmatched pre @ segs)
   = (case replaceSegments callback segs of
        Inl e \<Rightarrow> Inl e
      | Inr replaced \<Rightarrow> Inr (pre @ replaced))"
  by (induction pre) (auto split: sum.splits)

lemma removeHashes_reference:
  "CHR ''#'' \<notin> set name \<Longrightarrow> removeHashes (CHR ''#'' # name @ ''#'') = name"
  by (auto simp: removeHashes_def filter_id_conv)

text \<open>
  Claim C9. \<^verbatim>\<open>replaceExpressionVariables\<close> keeps the text before the first reference,
  puts the string of the variable's value in the place of the reference (the name
  between two \<^verbatim>\<open>#\<close>, where the name is an own property of the variables) and
  replaces the rest of the expression in the same way; an expression without
  \<^verbatim>\<open>#\<close> stays as it is. With the variables \<^verbatim>\<open>{X: 5}\<close> the expression
  \<^verbatim>\<open>#X# + 1\<close> is replaced by the string \<^verbatim>\<open>5 + 1\<close>.
\<close>

theorem replaceExpressionVariables_substitutes:
  "(CHR ''#'' \<notin> set pre \<and> CHR ''#'' \<notin> set name \<and> (\<forall>ch \<in> set name. \<not> isLineTerminator ch)
      \<and> vs name = Some v \<longrightarrow>
      replaceExpressionVariables
        (withVariables vs (new_ColumnCalculation (pre @ ''#'' @ name @ ''#'' @ post)))
      = (case replaceExpressionVariables (withVariables vs (new_ColumnCalculation post)) of
           Inl thrown \<Rightarrow> Inl thrown
         | Inr replaced \<Rightarrow> Inr (pre @ String_cell v @ replaced)))
   \<and> (CHR ''#'' \<notin> set plain \<longrightarrow>
        replaceExpressionVariables (withVariables vs (new_ColumnCalculation plain)) = Inr plain)
   \<and> replaceExpressionVariables
        (withVariables [''X'' \<mapsto> Num (Finite 5)] (new_ColumnCalculation ''#X# + 1''))
      = Inr ''5 + 1''"
proof (intro conjI impI)
  assume a: "CHR ''#'' \<notin> set pre \<and> CHR ''#'' \<notin> set name \<and> (\<forall>ch \<in> set name. \<not> isLineTerminator ch)
      \<and> vs name = Some v"
  then have scan: "regexScan (pre @ CHR ''#'' # name @ CHR ''#'' # post)
       = map Unmatched pre @ Matched (CHR ''#'' # name @ ''#'') # regexScan post"
    using regexScan_reference [of pre name post] by simp
  have own: "getProperty vs (removeHashes (CHR ''#'' # name @ ''#'')) = Own v"
    using a by (simp add: removeHashes_reference getProperty_def)
  show "replaceExpressionVariables
        (withVariables vs (new_ColumnCalculation (pre @ ''#'' @ name @ ''#'' @ post)))
      = (case replaceExpressionVariables (withVariables vs (new_ColumnCalculation post)) of
           Inl thrown \<Rightarrow> Inl thrown
         | Inr replaced \<Rightarrow> Inr (pre @ String_cell v @ replaced))"
    unfolding replaceExpressionVariables_def String_replace_def
    by (simp add: withVariables_def new_ColumnCalculation_def scan replaceSegments_prefix own
        split: sum.splits)
next
  assume "CHR ''#'' \<notin> set plain"
  then have "regexScan plain = map Unmatched plain @ regexScan []"
    using regexScan_prefix [of plain "[]"] by simp
  then show "replaceExpressionVariables (withVariables vs (new_ColumnCalculation plain)) = Inr plain"
    unfolding replaceExpressionVariables_def String_replace_def
    using replaceSegments_prefix [of _ plain "[]"]
    by (simp add: withVariables_def new_ColumnCalculation_def)
next
  show "replaceExpressionVariables
        (withVariables [''X'' \<mapsto> Num (Finite 5)] (new_ColumnCalculation ''#X# + 1''))
      = Inr ''5 + 1''"
    by (simp add: replaceExpressionVariables_def withVariables_def new_ColumnCalculation_def
        String_replace_def removeHashes_def isLineTerminator_def getProperty_def show_simps)
qed

theorem replaceExpressionVariables_substitutes_witness:
  "replaceExpressionVariables
     (withVariables [''Cell Density'' \<mapsto> Str ''100'', ''Volume'' \<mapsto> Str ''900'']
        (new_ColumnCalculation ''#Cell Density# * #Volume#''))
   = Inr ''100 * 900''"
proof -
  let ?vs = "[''Cell Density'' \<mapsto> Str ''100'', ''Volume'' \<mapsto> Str ''900'']"
  have h: "CHR ''#'' \<notin> set [] \<and> CHR ''#'' \<notin> set ''Cell Density''
      \<and> (\<forall>ch \<in> set ''Cell Density''. \<not> isLineTerminator ch)
      \<and> ?vs ''Cell Density'' = Some (Str ''100'')"
    by (simp add: isLineTerminator_def)
  have rest: "replaceExpressionVariables (withVariables ?vs (new_ColumnCalculation '' * #Volume#''))
      = Inr '' * 900''"
    by (simp add: replaceExpressionVariables_def withVariables_def new_ColumnCalculation_def
        String_replace_def removeHashes_def isLineTerminator_def getProperty_def)
  have "replaceExpressionVariables
        (withVariables ?vs (new_ColumnCalculation ([] @ ''#'' @ ''Cell Density'' @ ''#'' @ '' * #Volume#'')))
      = (case replaceExpressionVariables (withVariables ?vs (new_ColumnCalculation '' * #Volume#'')) of
           Inl thrown \<Rightarrow> Inl thrown
         | Inr replaced \<Rightarrow> Inr ([] @ String_cell (Str ''100'') @ replaced))"
    using replaceExpressionVariables_substitutes
      [of "[]" "''Cell Density''" ?vs "Str ''100''" "'' * #Volume#''"] h by blast
  then show ?thesis using rest by simp
qed






section \<open>What compile changes and what it leaves\<close>

lemma sameShape_refl: "sameShape t t"
  by (simp add: sameShape_def)

lemma sameShape_trans: "sameShape t s \<Longrightarrow> sameShape s u \<Longrightarrow> sameShape t u"
  by (simp add: sameShape_def)

lemma sameShape_wellFormed: "sameShape t s \<Longrightarrow> wellFormed t \<Longrightarrow> wellFormed s"
  by (simp add: sameShape_def wellFormed_def)

lemma sameShape_flag [simp]:
  "sameShape p (u\<lparr>isThereColumnAggregations := b\<rparr>) = sameShape p u"
  by (simp add: sameShape_def)

lemma forEach_append:
  "forEach body (xs @ ys) s =
     (case forEach body xs s of Inl thrown \<Rightarrow> Inl thrown | Inr s' \<Rightarrow> forEach body ys s')"
  by (induction xs arbitrary: s) (auto split: sum.splits)

text \<open>A loop over the indices below \<open>n\<close> returns when every step returns.\<close>

lemma forEach_upt_invariant:
  assumes "I 0 s"
    and "\<And>k u. k < n \<Longrightarrow> I k u \<Longrightarrow> \<exists>u'. body k u = Inr u' \<and> I (Suc k) u'"
  shows "\<exists>s'. forEach body [0..<n] s = Inr s' \<and> I n s'"
  using assms(2)
proof (induction n)
  case 0
  then show ?case using assms(1) by simp
next
  case (Suc n)
  then obtain u where u: "forEach body [0..<n] s = Inr u" "I n u" by force
  from Suc.prems [of n u] u(2) obtain u' where "body n u = Inr u'" "I (Suc n) u'" by auto
  then show ?case using u by (simp add: forEach_append)
qed

text \<open>What holds of the table a loop leaves, where it returns (\<open>I\<close>) and where it throws
  (\<open>E\<close>).\<close>

lemma forEach_upt_leaves:
  assumes "I 0 s"
    and "\<And>k u. k < n \<Longrightarrow> I k u \<Longrightarrow>
           (case body k u of Inl thrown \<Rightarrow> E (snd thrown) | Inr u' \<Rightarrow> I (Suc k) u')"
  shows "case forEach body [0..<n] s of Inl thrown \<Rightarrow> E (snd thrown) | Inr s' \<Rightarrow> I n s'"
  using assms(2)
proof (induction n)
  case 0
  then show ?case using assms(1) by simp
next
  case (Suc n)
  have ih: "case forEach body [0..<n] s of Inl thrown \<Rightarrow> E (snd thrown) | Inr s' \<Rightarrow> I n s'"
    using Suc by simp
  show ?case
  proof (cases "forEach body [0..<n] s")
    case (Inl thrown)
    then show ?thesis using ih by (simp add: forEach_append)
  next
    case (Inr u)
    then have "I n u" using ih by simp
    then show ?thesis using Suc.prems [of n u] Inr
      by (auto simp: forEach_append split: sum.splits)
  qed
qed

lemma forEach_upt_returned:
  assumes "forEach body [0..<n] s = Inr s'" "I 0 s"
    and "\<And>k u u'. k < n \<Longrightarrow> I k u \<Longrightarrow> body k u = Inr u' \<Longrightarrow> I (Suc k) u'"
  shows "I n s'"
proof -
  have "case forEach body [0..<n] s of Inl thrown \<Rightarrow> (\<lambda>u. True) (snd thrown) | Inr s' \<Rightarrow> I n s'"
    using assms(2,3) by (intro forEach_upt_leaves) (auto split: sum.splits)
  then show ?thesis using assms(1) by simp
qed

lemma getProperty_Own: "getProperty obj name = Own v \<Longrightarrow> obj name = Some v"
  by (auto simp: getProperty_def split: if_splits option.splits)


text \<open>What one assignment of the inner loop does, where it returns.\<close>

lemma fillRow_effect:
  assumes "fillRow evaluate j r u = Inr u'" "j < length (columns u)"
  shows "\<exists>vs. getCalculationVariables u r (columns u ! j) = Inr vs
     \<and> sameShape u u' \<and> maxRow u' = maxRow u
     \<and> isThereColumnAggregations u' = isThereColumnAggregations u
     \<and> (\<forall>i. i \<noteq> j \<longrightarrow> columns u' ! i = columns u ! i)
     \<and> rows (columns u' ! j)
         = AList.update r (Str (ColumnCalculation_calculate evaluate
                                  (withVariables vs (calculation (columns u ! j)))))
             (rows (columns u ! j))
     \<and> calculation (columns u' ! j) = withVariables vs (calculation (columns u ! j))
     \<and> data u' = (case data u j of None \<Rightarrow> data u
                   | Some rs \<Rightarrow> (data u)(j \<mapsto> rows (columns u' ! j)))"
proof -
  obtain vs where vs: "getCalculationVariables u r (columns u ! j) = Inr vs"
    using assms(1) by (auto simp: fillRow_def split: sum.splits)
  define column where "column = fillCalculatedRow evaluate r vs (columns u ! j)"
  have u': "u' = u\<lparr>columns := (columns u)[j := column],
                    data := (case data u j of
                               None \<Rightarrow> data u
                             | Some rs \<Rightarrow> (data u)(j \<mapsto> rows column))\<rparr>"
    unfolding column_def using assms(1) vs by (auto simp: fillRow_def Let_def)
  have cj: "columns u' ! j = column" using u' assms(2) by simp
  have sh: "sameShape u u'"
    using assms(2) unfolding u'
    by (simp add: sameShape_def nth_list_update column_def fillCalculatedRow_def Let_def
        withVariables_def)
  have o: "\<forall>i. i \<noteq> j \<longrightarrow> columns u' ! i = columns u ! i" unfolding u' by simp
  have rw: "rows (columns u' ! j)
         = AList.update r (Str (ColumnCalculation_calculate evaluate
                                  (withVariables vs (calculation (columns u ! j)))))
             (rows (columns u ! j))"
    unfolding cj by (simp add: column_def fillCalculatedRow_def Let_def)
  have ca: "calculation (columns u' ! j) = withVariables vs (calculation (columns u ! j))"
    unfolding cj by (simp add: column_def fillCalculatedRow_def Let_def)
  have da: "data u' = (case data u j of None \<Rightarrow> data u
                   | Some rs \<Rightarrow> (data u)(j \<mapsto> rows (columns u' ! j)))"
    unfolding cj unfolding u' by simp
  have m: "maxRow u' = maxRow u" "isThereColumnAggregations u' = isThereColumnAggregations u"
    unfolding u' by simp_all
  show ?thesis using vs sh m o rw ca da by blast
qed

lemma fillRow_returns:
  "getCalculationVariables u r (columns u ! j) = Inr vs \<Longrightarrow> \<exists>u'. fillRow evaluate j r u = Inr u'"
  by (simp add: fillRow_def Let_def)




lemma finite_boundKeys: "finite (boundKeys t i)"
  by (simp add: boundKeys_def split: option.splits)

lemma foldl_max_keys:
  "foldl (\<lambda>max current. if current > max then current else max) (acc::nat) ks
     = Max (insert acc (set ks))"
proof (induction ks arbitrary: acc)
  case Nil
  then show ?case by simp
next
  case (Cons k ks)
  have "Max (insert (if k > acc then k else acc) (set ks)) = Max (insert acc (insert k (set ks)))"
    by (cases "set ks = {}") (auto simp: max_def)
  then show ?case using Cons by simp
qed

lemma assignRows_step:
  assumes "i < length (columns t)"
  shows "sameShape t (assignRows i t)"
    and "data (assignRows i t) = data t"
    and "isThereColumnAggregations (assignRows i t) = isThereColumnAggregations t"
    and "maxRow (assignRows i t) = Max (insert (maxRow t) (boundKeys t i))"
    and "columns (assignRows i t) =
           (case data t i of None \<Rightarrow> columns t
            | Some rs \<Rightarrow> (columns t)[i := setRows rs (columns t ! i)])"
proof -
  show "sameShape t (assignRows i t)"
    using assms
    by (auto simp: assignRows_def sameShape_def setRows_def Let_def nth_list_update
        split: option.splits)
  show "data (assignRows i t) = data t"
    by (simp add: assignRows_def Let_def split: option.splits)
  show "isThereColumnAggregations (assignRows i t) = isThereColumnAggregations t"
    by (simp add: assignRows_def Let_def split: option.splits)
  show "maxRow (assignRows i t) = Max (insert (maxRow t) (boundKeys t i))"
  proof (cases "data t i")
    case None
    then show ?thesis by (simp add: assignRows_def boundKeys_def)
  next
    case (Some rs)
    have "Max (insert (maxRow t) (set (Object_keys rs)))
          = max (maxRow t) (Max (insert 0 (set (Object_keys rs))))"
      by (cases "set (Object_keys rs) = {}") (auto simp: max_def)
    then show ?thesis using Some
      by (auto simp: assignRows_def boundKeys_def Let_def foldl_max_keys max_def)
  qed
  show "columns (assignRows i t) =
           (case data t i of None \<Rightarrow> columns t
            | Some rs \<Rightarrow> (columns t)[i := setRows rs (columns t ! i)])"
    by (simp add: assignRows_def Let_def split: option.splits)
qed

lemma assignRows_fold:
  assumes "k \<le> length (columns t)"
  defines "s \<equiv> foldl (\<lambda>s i. assignRows i s) t [0..<k]"
  shows "sameShape t s \<and> data s = data t
    \<and> isThereColumnAggregations s = isThereColumnAggregations t
    \<and> maxRow s = Max (insert (maxRow t) (\<Union>i \<in> {..<k}. boundKeys t i))
    \<and> (\<forall>i < length (columns t). columns s ! i = assigned t k i)"
  unfolding s_def using assms(1)
proof (induction k)
  case 0
  then show ?case by (simp add: sameShape_refl assigned_def)
next
  case (Suc k)
  define u where "u = foldl (\<lambda>s i. assignRows i s) t [0..<k]"
  have u: "sameShape t u" "data u = data t"
    "isThereColumnAggregations u = isThereColumnAggregations t"
    "maxRow u = Max (insert (maxRow t) (\<Union>i \<in> {..<k}. boundKeys t i))"
    "\<forall>i < length (columns t). columns u ! i = assigned t k i"
    using Suc unfolding u_def by auto
  have len: "length (columns u) = length (columns t)" using u(1) by (simp add: sameShape_def)
  have k: "k < length (columns u)" using Suc.prems len by simp
  have bk: "boundKeys u k = boundKeys t k" by (simp add: boundKeys_def u(2))
  have fin: "finite (\<Union>i \<in> {..<k}. boundKeys t i)" by (simp add: finite_boundKeys)
  have m: "Max (insert (Max (insert (maxRow t) (\<Union>i \<in> {..<k}. boundKeys t i))) (boundKeys t k))
         = Max (insert (maxRow t) (\<Union>i \<in> {..<Suc k}. boundKeys t i))"
  proof -
    have "insert (maxRow t) (\<Union>i \<in> {..<Suc k}. boundKeys t i)
        = insert (maxRow t) (\<Union>i \<in> {..<k}. boundKeys t i) \<union> boundKeys t k"
      by (auto simp: lessThan_Suc)
    moreover have "Max (insert (maxRow t) (\<Union>i \<in> {..<k}. boundKeys t i) \<union> boundKeys t k)
        = Max (insert (Max (insert (maxRow t) (\<Union>i \<in> {..<k}. boundKeys t i))) (boundKeys t k))"
    proof (cases "boundKeys t k = {}")
      case True
      then show ?thesis by simp
    next
      case False
      then show ?thesis
        using fin finite_boundKeys [of t k]
        by (subst Max_Un) (auto simp: max.commute)
    qed
    ultimately show ?thesis by simp
  qed
  have cols: "\<forall>i < length (columns t). columns (assignRows k u) ! i = assigned t (Suc k) i"
  proof (intro allI impI)
    fix i assume i: "i < length (columns t)"
    show "columns (assignRows k u) ! i = assigned t (Suc k) i"
      using u(5) i Suc.prems len
      by (cases "i = k")
         (auto simp: assignRows_step(5) [OF k] u(2) assigned_def nth_list_update
           split: option.splits)
  qed
  show ?case
    using assignRows_step [OF k] u sameShape_trans [OF u(1)] bk m cols
    by (simp add: u_def [symmetric])
qed


text \<open>The table the first loop of \<^verbatim>\<open>compile\<close> hands to the second.\<close>

lemma compile_assignedTable:
  "compile evaluate t =
     forEach (compileColumn evaluate) [0..<length (columns (assignedTable t))] (assignedTable t)"
  by (simp add: compile_def assignedTable_def Let_def)

lemma assignedTable_facts:
  shows "sameShape t (assignedTable t)"
    and "data (assignedTable t) = data t"
    and "maxRow (assignedTable t) = rowExtent t"
    and "\<forall>i < length (columns t). columns (assignedTable t) ! i
           = (case data t i of None \<Rightarrow> columns t ! i | Some rs \<Rightarrow> setRows rs (columns t ! i))"
proof -
  define t0 where "t0 = t\<lparr>maxRow := 0\<rparr>"
  have s0: "sameShape t t0" by (simp add: t0_def sameShape_def)
  have bk: "boundKeys t0 i = boundKeys t i" for i by (simp add: boundKeys_def t0_def)
  have f: "sameShape t0 (foldl (\<lambda>s i. assignRows i s) t0 [0..<length (columns t0)])"
    "data (foldl (\<lambda>s i. assignRows i s) t0 [0..<length (columns t0)]) = data t0"
    "maxRow (foldl (\<lambda>s i. assignRows i s) t0 [0..<length (columns t0)])
       = Max (insert (maxRow t0) (\<Union>i \<in> {..<length (columns t0)}. boundKeys t0 i))"
    "\<forall>i < length (columns t0). columns (foldl (\<lambda>s i. assignRows i s) t0 [0..<length (columns t0)]) ! i
       = assigned t0 (length (columns t0)) i"
    using assignRows_fold [of "length (columns t0)" t0] by simp_all
  have l0: "length (columns t0) = length (columns t)" by (simp add: t0_def)
  have at: "assignedTable t = (foldl (\<lambda>s i. assignRows i s) t0 [0..<length (columns t0)])
       \<lparr>isThereColumnAggregations := False\<rparr>"
    by (simp add: assignedTable_def t0_def)
  show "sameShape t (assignedTable t)"
    using sameShape_trans [OF s0 f(1)] unfolding at by (simp add: sameShape_def)
  show "data (assignedTable t) = data t"
    unfolding at using f(2) by (simp add: t0_def)
  have "maxRow (assignedTable t) = Max (insert 0 (\<Union>i \<in> {..<length (columns t)}. boundKeys t i))"
    unfolding at using f(3) unfolding bk l0 by (simp add: t0_def)
  then show "maxRow (assignedTable t) = rowExtent t" by (simp add: rowExtent_def)
  show "\<forall>i < length (columns t). columns (assignedTable t) ! i
           = (case data t i of None \<Rightarrow> columns t ! i | Some rs \<Rightarrow> setRows rs (columns t ! i))"
    unfolding at using f(4) unfolding l0
    by (auto simp: assigned_def t0_def split: option.splits)
qed



lemma mapping_fold_range:
  "foldl (\<lambda>mapping i. setProperty mapping (f i) i) m0 [0..<n] name = Some i \<Longrightarrow>
   i < n \<or> m0 name = Some i"
  by (induction n arbitrary: i) (auto simp: setProperty_def split: if_splits)

lemma addColumns_wellFormed: "wellFormed (addColumns cs t)"
  unfolding wellFormed_def addColumns_def updateColumnNameToIndexMapping_def
  using mapping_fold_range [where ?m0.0 = Map.empty] by fastforce



section \<open>Evaluating the examples\<close>

lemmas table_simps =
  addColumns_def new_DataTable_def updateColumnNameToIndexMapping_def new_ColumnData_def
  withCalculation_def withAggregation_def new_ColumnCalculation_def extractExpectedVariables_def
  String_match_def new_Set_def removeHashes_def isLineTerminator_def
  getProperty_def setProperty_def objectPrototypeFunctions_def functionText_def

lemmas compile_simps =
  compile_def compileColumn_def fillRow_def assignRows_def getCalculationVariables_def
  fillCalculatedRow_def withVariables_def setRows_def ColumnData_getValue_def
  ColumnCalculation_calculate_def replaceExpressionVariables_def String_replace_def
  Object_keys_def Let_def upt_rec getValueAfter_def DataTable_getValue_def

lemmas sumEvaluator_simps =
  sumEvaluator_def trimSpaces_def isDigitOf_def digitValue_def digitsValue_def

section \<open>The compiled table\<close>




text \<open>
  Claim C4. Where \<^verbatim>\<open>math.evaluate\<close> gives 110 for \<^verbatim>\<open>10 + 100\<close> and 220 for
  \<^verbatim>\<open>20 + 200\<close>, the compiled table of the end-to-end scenario has \<^verbatim>\<open>110\<close> in
  row 0 and \<^verbatim>\<open>220\<close> in row 1 of the column Total.
\<close>

theorem end_to_end_scenario:
  assumes "evaluate ''10 + 100'' = Returns (MNumber (Finite 110))"
    and "evaluate ''20 + 200'' = Returns (MNumber (Finite 220))"
  shows "getValueAfter evaluate 1 endToEndTable 0 2 = Inr (Text ''110'')
     \<and> getValueAfter evaluate 1 endToEndTable 1 2 = Inr (Text ''220'')"
  using assms
  by (simp add: endToEndTable_def table_simps compile_simps show_simps)

theorem end_to_end_scenario_witness:
  "getValueAfter sumEvaluator 1 endToEndTable 0 2 = Inr (Text ''110'')
     \<and> getValueAfter sumEvaluator 1 endToEndTable 1 2 = Inr (Text ''220'')"
proof -
  have a: "sumEvaluator ''10 + 100'' = Returns (MNumber (Finite 110))"
    by (simp add: sumEvaluator_simps)
  have b: "sumEvaluator ''20 + 200'' = Returns (MNumber (Finite 220))"
    by (simp add: sumEvaluator_simps)
  show ?thesis using end_to_end_scenario [OF a b] .
qed

text \<open>
  Claim C7. For a column index of the table, \<^verbatim>\<open>getValue\<close> on a row index above
  \<^verbatim>\<open>maxRow\<close> returns the element \<^verbatim>\<open>getAggregation\<close> gives for the column, and
  on a row index up to \<^verbatim>\<open>maxRow\<close> the string \<^verbatim>\<open>getValue\<close> of the column gives
  for the row. This holds for every table, compiled or not.
\<close>

theorem getValue_aggregation_row:
  "columnIndex < length (columns t) \<Longrightarrow>
   DataTable_getValue t rowIndex columnIndex =
     (if rowIndex > maxRow t then Inr (Element (getAggregation (columns t ! columnIndex)))
      else Inr (Text (ColumnData_getValue (columns t ! columnIndex) rowIndex)))"
  by (simp add: DataTable_getValue_def)

theorem getValue_aggregation_row_witness:
  "\<exists>t. compile sumEvaluator (sparseTable AggSum) = Inr t
     \<and> DataTable_getValue t 6 1 = Inr (Element (Strong AggSum ''24''))
     \<and> DataTable_getValue t 5 1 = Inr (Text ''9'')"
proof -
  have "\<exists>t. compile sumEvaluator (sparseTable AggSum) = Inr t \<and> 1 < length (columns t)
     \<and> maxRow t = 5 \<and> getAggregation (columns t ! 1) = Strong AggSum ''24''
     \<and> ColumnData_getValue (columns t ! 1) 5 = ''9''"
    by (simp add: sparseTable_def table_simps compile_simps getAggregation_def
        ColumnAggregator_calculate_def Object_values_def show_simps)
  then obtain t where t: "compile sumEvaluator (sparseTable AggSum) = Inr t"
    "1 < length (columns t)" "maxRow t = 5"
    "getAggregation (columns t ! 1) = Strong AggSum ''24''"
    "ColumnData_getValue (columns t ! 1) 5 = ''9''" by blast
  show ?thesis
    using t getValue_aggregation_row [OF t(2), of 6] getValue_aggregation_row [OF t(2), of 5] by auto
qed

text \<open>
  Claim C2, amended. \<^verbatim>\<open>ColumnData.getValue\<close> returns the string of the stored value,
  or the empty string where the row has none. \<^verbatim>\<open>DataTable.getValue\<close> returns a
  value for every row index and every column index below the number of columns; for
  any other column index it throws a TypeError.
\<close>

theorem getValue_raises_only_out_of_range:
  "ColumnData_getValue column rowIndex =
     (case map_of (rows column) rowIndex of Some v \<Rightarrow> String_cell v | None \<Rightarrow> [])
   \<and> (columnIndex < length (columns t) \<longrightarrow>
        (\<exists>v. DataTable_getValue t rowIndex columnIndex = Inr v))
   \<and> (length (columns t) \<le> columnIndex \<longrightarrow>
        DataTable_getValue t rowIndex columnIndex = Inl TypeError)"
  by (simp add: ColumnData_getValue_def DataTable_getValue_def)

theorem getValue_raises_only_out_of_range_witness:
  "(\<exists>v. DataTable_getValue endToEndTable 7 2 = Inr v)
   \<and> DataTable_getValue endToEndTable 7 3 = Inl TypeError"
proof -
  have "(2::nat) < length (columns endToEndTable)" "length (columns endToEndTable) \<le> (3::nat)"
    by (simp_all add: endToEndTable_def table_simps)
  then show ?thesis
    using getValue_raises_only_out_of_range [where rowIndex = 7 and columnIndex = 2 and t = endToEndTable]
      getValue_raises_only_out_of_range [where rowIndex = 7 and columnIndex = 3 and t = endToEndTable] by blast
qed

text \<open>
  Claim C2 as stated fails: the table of the end-to-end scenario has three columns, and
  after \<^verbatim>\<open>compile\<close> the read \<^verbatim>\<open>getValue(0, 3)\<close> throws.
\<close>

theorem getValue_raises_counterexample: "getValueAfter sumEvaluator 1 endToEndTable 0 3 = Inl TypeError"
  by (simp add: endToEndTable_def table_simps compile_simps show_simps sumEvaluator_simps)

section \<open>compile twice\<close>

lemma refersBackward_sameShape:
  assumes "sameShape t u" "wellFormed t" "refersBackward t"
  shows "refersBackward u"
  using assms unfolding refersBackward_def sameShape_def wellFormed_def
  by (metis (no_types, lifting))

lemma calculate_cong:
  "expression c = expression c' \<Longrightarrow>
   ColumnCalculation_calculate evaluate (withVariables vs c)
     = ColumnCalculation_calculate evaluate (withVariables vs c')"
  by (simp add: ColumnCalculation_calculate_def replaceExpressionVariables_def withVariables_def)

lemma collectVariables_cong:
  assumes "columnNameToIndexMapping u = columnNameToIndexMapping s"
    and "length (columns u) = length (columns s)"
    and "\<forall>name \<in> set names. \<forall>i. columnNameToIndexMapping s name = Some i \<longrightarrow>
           i < length (columns s) \<longrightarrow>
           ColumnData_getValue (columns u ! i) r = ColumnData_getValue (columns s ! i) r"
  shows "collectVariables u r names vs = collectVariables s r names vs"
  using assms(3)
proof (induction names arbitrary: vs)
  case Nil
  show ?case by simp
next
  case (Cons name names)
  have rest: "\<forall>name \<in> set names. \<forall>i. columnNameToIndexMapping s name = Some i \<longrightarrow>
           i < length (columns s) \<longrightarrow>
           ColumnData_getValue (columns u ! i) r = ColumnData_getValue (columns s ! i) r"
    using Cons.prems by (meson list.set_intros(2))
  have ih: "collectVariables u r names ws = collectVariables s r names ws" for ws
    by (rule Cons.IH [OF rest])
  have here: "columnNameToIndexMapping s name = Some i \<Longrightarrow> i < length (columns s) \<Longrightarrow>
       ColumnData_getValue (columns u ! i) r = ColumnData_getValue (columns s ! i) r" for i
    using Cons.prems by (meson list.set_intros(1))
  show ?case
  proof (cases "getProperty (columnNameToIndexMapping s) name")
    case (Own i)
    have m: "columnNameToIndexMapping s name = Some i" using getProperty_Own [OF Own] by simp
    show ?thesis
    proof (cases "i < length (columns s)")
      case True
      then show ?thesis using Own here [OF m True] by (simp add: assms(1,2) ih)
    next
      case False
      then show ?thesis using Own by (simp add: assms(1,2))
    qed
  next
    case (Inherited shown)
    then show ?thesis by (simp add: assms(1))
  next
    case Undefined
    then show ?thesis by (simp add: assms(1) ih)
  qed
qed

lemma getValue_rows:
  "map_of (rows c) r = map_of (rows c') r \<Longrightarrow> ColumnData_getValue c r = ColumnData_getValue c' r"
  by (simp add: ColumnData_getValue_def)

lemma fillRow_variables:
  assumes "wellFormed u" "refersBackward u" "sameShape u u'"
    and "\<forall>i. i \<noteq> j \<longrightarrow> columns u' ! i = columns u ! i"
    and "j' \<le> j" "j < length (columns u)"
    and "columnType (columns u ! j') = CalculatedColumn"
    and "columnType (columns u ! j) = CalculatedColumn"
  shows "getCalculationVariables u' r' (columns u' ! j')
       = getCalculationVariables u r' (columns u ! j')"
proof -
  have j': "j' < length (columns u)" using assms(5,6) by simp
  have ev: "expectedVariables (calculation (columns u' ! j'))
          = expectedVariables (calculation (columns u ! j'))"
    using assms(3) j' by (simp add: sameShape_def)
  have "collectVariables u' r' (expectedVariables (calculation (columns u ! j'))) Map.empty
      = collectVariables u r' (expectedVariables (calculation (columns u ! j'))) Map.empty"
  proof (rule collectVariables_cong)
    show "columnNameToIndexMapping u' = columnNameToIndexMapping u"
      using assms(3) by (simp add: sameShape_def)
    show "length (columns u') = length (columns u)"
      using assms(3) by (simp add: sameShape_def)
    show "\<forall>name \<in> set (expectedVariables (calculation (columns u ! j'))). \<forall>i.
           columnNameToIndexMapping u name = Some i \<longrightarrow> i < length (columns u) \<longrightarrow>
           ColumnData_getValue (columns u' ! i) r' = ColumnData_getValue (columns u ! i) r'"
    proof (intro ballI allI impI)
      fix name i
      assume n: "name \<in> set (expectedVariables (calculation (columns u ! j')))"
        and m: "columnNameToIndexMapping u name = Some i"
      have "i \<noteq> j"
      proof
        assume "i = j"
        then have "i < j'"
          using assms(2,7,8) j' n m unfolding refersBackward_def by blast
        then show False using \<open>i = j\<close> assms(5) by simp
      qed
      then show "ColumnData_getValue (columns u' ! i) r' = ColumnData_getValue (columns u ! i) r'"
        using assms(4) by simp
    qed
  qed
  then show ?thesis by (simp add: getCalculationVariables_def ev)
qed

lemma fillRow_settles:
  assumes "wellFormed u" "refersBackward u" "j < length (columns u)"
    and "columnType (columns u ! j) = CalculatedColumn"
    and "fillRow evaluate j r u = Inr u'"
  shows "consistentAt evaluate u' j r"
    and "\<And>j' r'. j' \<le> j \<Longrightarrow> j' \<noteq> j \<or> r' \<noteq> r \<Longrightarrow>
           columnType (columns u ! j') = CalculatedColumn \<Longrightarrow>
           consistentAt evaluate u j' r' \<Longrightarrow> consistentAt evaluate u' j' r'"
proof -
  obtain vs where e: "getCalculationVariables u r (columns u ! j) = Inr vs"
     "fillRow evaluate j r u = Inr u'"
     "sameShape u u'"
     "\<forall>i. i \<noteq> j \<longrightarrow> columns u' ! i = columns u ! i"
     "rows (columns u' ! j)
         = AList.update r (Str (ColumnCalculation_calculate evaluate
                                  (withVariables vs (calculation (columns u ! j)))))
             (rows (columns u ! j))"
     "calculation (columns u' ! j) = withVariables vs (calculation (columns u ! j))"
    using fillRow_effect [OF assms(5,3)] assms(5) by blast
  have vars: "getCalculationVariables u' r' (columns u' ! j')
       = getCalculationVariables u r' (columns u ! j')"
    if "j' \<le> j" "columnType (columns u ! j') = CalculatedColumn" for j' r'
    using fillRow_variables [OF assms(1,2) e(3,4) that(1) assms(3) that(2) assms(4)] .
  have ex: "expression (calculation (columns u' ! j')) = expression (calculation (columns u ! j'))"
    if "j' \<le> j" for j'
    using e(3) that assms(3) by (simp add: sameShape_def)
  show "consistentAt evaluate u' j r"
    unfolding consistentAt_def
  proof (intro exI conjI)
    show "getCalculationVariables u' r (columns u' ! j) = Inr vs"
      using vars [of j r] assms(4) e(1) by simp
    show "map_of (rows (columns u' ! j)) r
            = Some (Str (ColumnCalculation_calculate evaluate
                           (withVariables vs (calculation (columns u' ! j)))))"
      using calculate_cong [OF ex [of j], of evaluate vs]
      by (simp add: e(5) update_conv')
  qed
  show "consistentAt evaluate u' j' r'"
    if a: "j' \<le> j" "j' \<noteq> j \<or> r' \<noteq> r" "columnType (columns u ! j') = CalculatedColumn"
      "consistentAt evaluate u j' r'" for j' r'
  proof -
    obtain ws where ws: "getCalculationVariables u r' (columns u ! j') = Inr ws"
      "map_of (rows (columns u ! j')) r'
            = Some (Str (ColumnCalculation_calculate evaluate
                           (withVariables ws (calculation (columns u ! j')))))"
      using a(4) unfolding consistentAt_def by blast
    have rw: "map_of (rows (columns u' ! j')) r' = map_of (rows (columns u ! j')) r'"
    proof (cases "j' = j")
      case True
      then have "r' \<noteq> r" using a(2) by simp
      then show ?thesis using True by (simp add: e(5) update_conv')
    next
      case False
      then show ?thesis using e(4) by simp
    qed
    show ?thesis
      unfolding consistentAt_def
    proof (intro exI conjI)
      show "getCalculationVariables u' r' (columns u' ! j') = Inr ws"
        using vars [OF a(1,3)] ws(1) by simp
      show "map_of (rows (columns u' ! j')) r'
            = Some (Str (ColumnCalculation_calculate evaluate
                           (withVariables ws (calculation (columns u' ! j')))))"
        using calculate_cong [OF ex [OF a(1)], of evaluate ws] rw ws(2) by simp
    qed
  qed
qed

lemma fillRow_aliased:
  assumes "j < length (columns u)" "aliased u"
    and "fillRow evaluate j r u = Inr u'"
  shows "aliased u'"
proof -
  have e: "fillRow evaluate j r u = Inr u'"
     "sameShape u u'"
     "\<forall>i. i \<noteq> j \<longrightarrow> columns u' ! i = columns u ! i"
     "data u' = (case data u j of None \<Rightarrow> data u
                   | Some rs \<Rightarrow> (data u)(j \<mapsto> rows (columns u' ! j)))"
    using fillRow_effect [OF assms(3,1)] assms(3) by blast+
  have len: "length (columns u') = length (columns u)" using e(2) by (simp add: sameShape_def)
  show ?thesis
    unfolding aliased_def
  proof (intro allI impI)
    fix i rs assume i: "i < length (columns u')" and d: "data u' i = Some rs"
    show "rows (columns u' ! i) = rs"
    proof (cases "i = j")
      case True
      then show ?thesis using d e(4) by (auto split: option.splits)
    next
      case False
      then have "data u i = Some rs" using d e(4) by (auto split: option.splits)
      then show ?thesis using assms(2) i len False e(3) by (simp add: aliased_def)
    qed
  qed
qed

lemma fillRow_keysWithin:
  assumes "j < length (columns u)" "aliased u"
    and "sameShape p u" "keysWithin p u" "r \<le> maxRow p"
    and "fillRow evaluate j r u = Inr u'"
  shows "keysWithin p u'"
proof -
  obtain vs where e: "fillRow evaluate j r u = Inr u'"
     "rows (columns u' ! j)
         = AList.update r (Str (ColumnCalculation_calculate evaluate
                                  (withVariables vs (calculation (columns u ! j)))))
             (rows (columns u ! j))"
     "data u' = (case data u j of None \<Rightarrow> data u
                   | Some rs \<Rightarrow> (data u)(j \<mapsto> rows (columns u' ! j)))"
    using fillRow_effect [OF assms(6,1)] assms(6) by blast
  have bk: "boundKeys u' i = (if i = j \<and> data u j \<noteq> None then insert r (boundKeys u j)
                              else boundKeys u i)" for i
  proof (cases "data u j")
    case None
    then show ?thesis using e(3) by (simp add: boundKeys_def)
  next
    case (Some rs)
    then have "rows (columns u ! j) = rs" using assms(1,2) by (simp add: aliased_def)
    then show ?thesis using Some e(2,3)
      by (auto simp: boundKeys_def Object_keys_def dom_update)
  qed
  show ?thesis
    using assms(4,5) unfolding keysWithin_def bk by auto
qed

lemma getCalculationVariables_cong:
  assumes "columnNameToIndexMapping u = columnNameToIndexMapping s"
    and "length (columns u) = length (columns s)"
    and "expectedVariables (calculation c) = expectedVariables (calculation c')"
    and "\<forall>i < length (columns s). map_of (rows (columns u ! i)) r = map_of (rows (columns s ! i)) r"
  shows "getCalculationVariables u r c = getCalculationVariables s r c'"
  unfolding getCalculationVariables_def assms(3)
  using assms(4) by (intro collectVariables_cong [OF assms(1,2)]) (auto intro: getValue_rows)

lemma consistentAt_flag [simp]:
  "consistentAt evaluate (u\<lparr>isThereColumnAggregations := b\<rparr>) j r = consistentAt evaluate u j r"
proof -
  have "getCalculationVariables (u\<lparr>isThereColumnAggregations := b\<rparr>) r (columns u ! j)
      = getCalculationVariables u r (columns u ! j)"
    by (rule getCalculationVariables_cong) simp_all
  then show ?thesis by (simp add: consistentAt_def)
qed

lemma aliased_flag [simp]: "aliased (u\<lparr>isThereColumnAggregations := b\<rparr>) = aliased u"
  by (simp add: aliased_def)

lemma keysWithin_flag [simp]:
  "keysWithin p (u\<lparr>isThereColumnAggregations := b\<rparr>) = keysWithin p u"
  by (simp add: keysWithin_def boundKeys_def)

lemma settling_flag [simp]:
  "settling evaluate p k (u\<lparr>isThereColumnAggregations := b\<rparr>) = settling evaluate p k u"
  by (simp add: settling_def)

lemma compileColumn_settling:
  assumes "wellFormed p" "refersBackward p" "j < length (columns p)"
    and "settling evaluate p j u" "compileColumn evaluate j u = Inr u'"
  shows "settling evaluate p (Suc j) u'"
proof -
  define t1 where "t1 = (if operation (aggregation (columns u ! j)) \<noteq> AggNone
                then u\<lparr>isThereColumnAggregations := True\<rparr> else u)"
  have s1: "settling evaluate p j t1" using assms(4) by (simp add: t1_def)
  have m1: "maxRow t1 = maxRow p" using s1 by (simp add: settling_def)
  have ty: "columnType (columns t1 ! j) = columnType (columns p ! j)"
    using s1 assms(3) by (simp add: settling_def sameShape_def)
  show ?thesis
  proof (cases "columnType (columns p ! j) = CalculatedColumn")
    case False
    then have "compileColumn evaluate j u = Inr t1"
      using ty by (simp add: compileColumn_def t1_def Let_def)
    moreover have "settling evaluate p (Suc j) t1"
      using s1 False by (auto simp: settling_def less_Suc_eq)
    ultimately show ?thesis using assms(5) by simp
  next
    case True
    define J where "J = (\<lambda>k v. settling evaluate p j v
       \<and> (\<forall>r < k. consistentAt evaluate v j r))"
    have loop: "forEach (fillRow evaluate j) [0..<Suc (maxRow p)] t1 = Inr u'"
      using assms(5) ty True m1 by (simp add: compileColumn_def t1_def [symmetric] Let_def)
    have v: "J (Suc (maxRow p)) u'"
    proof (rule forEach_upt_returned [OF loop])
      show "J 0 t1" using s1 by (simp add: J_def)
    next
      fix k v v' assume k: "k < Suc (maxRow p)" and "J k v"
        and f: "fillRow evaluate j k v = Inr v'"
      then have v: "sameShape p v" "maxRow v = maxRow p" "aliased v" "keysWithin p v"
        "\<forall>j' < j. columnType (columns p ! j') = CalculatedColumn \<longrightarrow>
            (\<forall>r \<le> maxRow p. consistentAt evaluate v j' r)"
        "\<forall>r < k. consistentAt evaluate v j r"
        by (auto simp: J_def settling_def)
      have wfv: "wellFormed v" using sameShape_wellFormed [OF v(1) assms(1)] .
      have rbv: "refersBackward v" using refersBackward_sameShape [OF v(1) assms(1,2)] .
      have len: "length (columns v) = length (columns p)" using v(1) by (simp add: sameShape_def)
      have jv: "j < length (columns v)" using len assms(3) by simp
      have tyv: "columnType (columns v ! j') = columnType (columns p ! j')"
        if "j' < length (columns p)" for j'
        using v(1) that by (simp add: sameShape_def)
      have cv: "columnType (columns v ! j) = CalculatedColumn" using tyv [OF assms(3)] True by simp
      have v': "fillRow evaluate j k v = Inr v'" "sameShape v v'" "maxRow v' = maxRow v"
        using f fillRow_effect [OF f jv] by blast+
      have sh: "sameShape p v'" using sameShape_trans [OF v(1) v'(2)] .
      have al: "aliased v'" using fillRow_aliased [OF jv v(3) v'(1)] .
      have kw: "keysWithin p v'"
        using fillRow_keysWithin [OF jv v(3) v(1) v(4) _ v'(1)] k by simp
      have c1: "consistentAt evaluate v' j k" using fillRow_settles(1) [OF wfv rbv jv cv v'(1)] .
      have c2: "consistentAt evaluate v' j' r'"
        if "j' \<le> j" "j' \<noteq> j \<or> r' \<noteq> k" "columnType (columns p ! j') = CalculatedColumn"
          "consistentAt evaluate v j' r'" for j' r'
      proof -
        have "j' < length (columns p)" using that(1) assms(3) by simp
        then have "columnType (columns v ! j') = CalculatedColumn" using tyv that(3) by simp
        then show ?thesis using fillRow_settles(2) [OF wfv rbv jv cv v'(1) that(1,2)] that(4) by blast
      qed
      have prev: "\<forall>j' < j. columnType (columns p ! j') = CalculatedColumn \<longrightarrow>
            (\<forall>r \<le> maxRow p. consistentAt evaluate v' j' r)"
        using c2 v(5) by (metis less_imp_le_nat nat_neq_iff)
      have cur: "\<forall>r < Suc k. consistentAt evaluate v' j r"
      proof (intro allI impI)
        fix r assume "r < Suc k"
        show "consistentAt evaluate v' j r"
        proof (cases "r = k")
          case True
          then show ?thesis using c1 by simp
        next
          case False
          then have "r < k" using \<open>r < Suc k\<close> by simp
          then show ?thesis using c2 [of j r] False True v(6) by simp
        qed
      qed
      show "J (Suc k) v'"
        using v'(3) v(2) sh al kw prev cur by (auto simp: J_def settling_def)
    qed
    have "\<forall>r \<le> maxRow p. consistentAt evaluate u' j r"
      using v by (simp add: J_def less_Suc_eq_le)
    then show "settling evaluate p (Suc j) u'"
      using v unfolding J_def settling_def by (metis less_SucE)
  qed
qed

lemma rowExtent_keysWithin:
  assumes "sameShape p u" "keysWithin p u" "rowExtent p = maxRow p"
  shows "rowExtent u = maxRow p"
proof -
  let ?P = "insert 0 (\<Union>i \<in> {..<length (columns p)}. boundKeys p i)"
  let ?U = "insert 0 (\<Union>i \<in> {..<length (columns u)}. boundKeys u i)"
  have len: "length (columns u) = length (columns p)" using assms(1) by (simp add: sameShape_def)
  have finP: "finite ?P" and finU: "finite ?U" by (simp_all add: finite_boundKeys)
  have mP: "Max ?P = maxRow p" using assms(3) by (simp add: rowExtent_def)
  have "Max ?P \<in> ?P" using finP by (intro Max_in) auto
  then have "maxRow p \<in> ?P" using mP by simp
  then have a: "maxRow p \<in> ?U" using assms(2) len unfolding keysWithin_def by auto
  have b: "k \<le> maxRow p" if ku: "k \<in> ?U" for k
  proof (cases "k = 0")
    case True
    then show ?thesis by simp
  next
    case False
    then obtain i where i: "i < length (columns p)" "k \<in> boundKeys u i"
      using ku len by auto
    then have "k \<in> boundKeys p i \<or> k \<le> maxRow p"
      using assms(2) unfolding keysWithin_def by auto
    moreover have "k \<le> Max ?P" if kp: "k \<in> boundKeys p i"
      using finP kp i(1) by (intro Max_ge) auto
    ultimately show ?thesis using mP by auto
  qed
  show ?thesis unfolding rowExtent_def using finU a b by (intro Max_eqI) auto
qed

lemma compile_settles:
  assumes "wellFormed t" "refersBackward t" "compile evaluate t = Inr t'"
  shows "sameShape t t' \<and> settled evaluate t'"
proof -
  define p where "p = assignedTable t"
  define n where "n = length (columns t)"
  have p: "sameShape t p" "data p = data t" "maxRow p = rowExtent t"
    "\<forall>i < length (columns t). columns p ! i
           = (case data t i of None \<Rightarrow> columns t ! i | Some rs \<Rightarrow> setRows rs (columns t ! i))"
    unfolding p_def by (rule assignedTable_facts)+
  have lenp: "length (columns p) = n" using p(1) by (simp add: sameShape_def n_def)
  have wfp: "wellFormed p" using sameShape_wellFormed [OF p(1) assms(1)] .
  have rbp: "refersBackward p" using refersBackward_sameShape [OF p(1) assms(1,2)] .
  have alp: "aliased p"
    unfolding aliased_def using p(2,4) lenp by (auto simp: n_def setRows_def)
  have bkp: "boundKeys p i = boundKeys t i" for i by (simp add: boundKeys_def p(2))
  have rep: "rowExtent p = maxRow p" using p(3) lenp by (simp add: rowExtent_def bkp n_def)
  have c: "forEach (compileColumn evaluate) [0..<n] p = Inr t'"
    using assms(3) lenp by (simp add: compile_assignedTable p_def [symmetric])
  have t': "settling evaluate p n t'"
  proof (rule forEach_upt_returned [OF c])
    show "settling evaluate p 0 p"
      using alp by (simp add: settling_def sameShape_refl keysWithin_def)
  next
    fix k u u' assume "k < n" "settling evaluate p k u" "compileColumn evaluate k u = Inr u'"
    then show "settling evaluate p (Suc k) u'"
      using compileColumn_settling [OF wfp rbp] lenp by simp
  qed
  have s: "sameShape p t'" "maxRow t' = maxRow p" "aliased t'" "keysWithin p t'"
    "\<forall>j < n. columnType (columns p ! j) = CalculatedColumn \<longrightarrow>
            (\<forall>r \<le> maxRow p. consistentAt evaluate t' j r)"
    using t' by (auto simp: settling_def)
  have re: "rowExtent t' = maxRow t'"
    using rowExtent_keysWithin [OF s(1,4) rep] s(2) by simp
  have len': "length (columns t') = n" using s(1) lenp by (simp add: sameShape_def)
  have ty: "\<forall>j < n. columnType (columns t' ! j) = columnType (columns p ! j)"
    using s(1) lenp by (simp add: sameShape_def)
  have "settled evaluate t'"
    unfolding settled_def using s(3) re s(5) ty len' s(2) by simp
  then show ?thesis using sameShape_trans [OF p(1) s(1)] by blast
qed

lemma frozen_flag [simp]: "frozen p (u\<lparr>isThereColumnAggregations := b\<rparr>) = frozen p u"
  by (simp add: frozen_def)

lemma fillRow_frozen:
  assumes "wellFormed p" "aliased p" "j < length (columns p)"
    and "consistentAt evaluate p j r" "frozen p u"
  shows "\<exists>u'. fillRow evaluate j r u = Inr u' \<and> frozen p u'"
proof -
  have u: "sameShape p u" "maxRow u = maxRow p" "data u = data p"
    "\<forall>i < length (columns p). rows (columns u ! i) = rows (columns p ! i)"
    using assms(5) by (auto simp: frozen_def)
  have len: "length (columns u) = length (columns p)" using u(1) by (simp add: sameShape_def)
  have ju: "j < length (columns u)" using len assms(3) by simp
  obtain ws where ws: "getCalculationVariables p r (columns p ! j) = Inr ws"
    "map_of (rows (columns p ! j)) r
            = Some (Str (ColumnCalculation_calculate evaluate
                           (withVariables ws (calculation (columns p ! j)))))"
    using assms(4) unfolding consistentAt_def by blast
  have same: "getCalculationVariables u r (columns u ! j) = getCalculationVariables p r (columns p ! j)"
  proof (rule getCalculationVariables_cong)
    show "columnNameToIndexMapping u = columnNameToIndexMapping p"
      using u(1) by (simp add: sameShape_def)
    show "length (columns u) = length (columns p)" by (rule len)
    show "expectedVariables (calculation (columns u ! j))
        = expectedVariables (calculation (columns p ! j))"
      using u(1) assms(3) by (simp add: sameShape_def)
    show "\<forall>i < length (columns p). map_of (rows (columns u ! i)) r = map_of (rows (columns p ! i)) r"
      using u(4) by simp
  qed
  have "getCalculationVariables u r (columns u ! j) = Inr ws" using same ws(1) by simp
  then obtain u' where f: "fillRow evaluate j r u = Inr u'"
    using fillRow_returns by blast
  obtain vs where e: "getCalculationVariables u r (columns u ! j) = Inr vs"
     "fillRow evaluate j r u = Inr u'"
     "sameShape u u'" "maxRow u' = maxRow u"
     "\<forall>i. i \<noteq> j \<longrightarrow> columns u' ! i = columns u ! i"
     "rows (columns u' ! j)
         = AList.update r (Str (ColumnCalculation_calculate evaluate
                                  (withVariables vs (calculation (columns u ! j)))))
             (rows (columns u ! j))"
     "data u' = (case data u j of None \<Rightarrow> data u
                   | Some rs \<Rightarrow> (data u)(j \<mapsto> rows (columns u' ! j)))"
    using fillRow_effect [OF f ju] f by blast
  have vw: "vs = ws" using same e(1) ws(1) by simp
  have ex: "expression (calculation (columns u ! j)) = expression (calculation (columns p ! j))"
    using u(1) assms(3) by (simp add: sameShape_def)
  have rj: "rows (columns u' ! j) = rows (columns p ! j)"
    using e(6) u(4) assms(3) ws(2) calculate_cong [OF ex, of evaluate ws]
    by (simp add: vw update_triv)
  have rw: "\<forall>i < length (columns p). rows (columns u' ! i) = rows (columns p ! i)"
  proof (intro allI impI)
    fix i assume "i < length (columns p)"
    then show "rows (columns u' ! i) = rows (columns p ! i)"
      using rj e(5) u(4) by (cases "i = j") simp_all
  qed
  have da: "data u' = data p"
  proof (cases "data p j")
    case None
    then show ?thesis using e(7) u(3) by simp
  next
    case (Some rs)
    then have "rows (columns p ! j) = rs" using assms(2,3) by (simp add: aliased_def)
    then show ?thesis using e(7) u(3) Some rj by (simp add: fun_upd_idem)
  qed
  have "frozen p u'"
    unfolding frozen_def using sameShape_trans [OF u(1) e(3)] e(4) u(2) da rw by simp
  then show ?thesis using e(2) by blast
qed

lemma compileColumn_frozen:
  assumes "wellFormed p" "aliased p" "j < length (columns p)"
    and "columnType (columns p ! j) = CalculatedColumn \<longrightarrow>
           (\<forall>r \<le> maxRow p. consistentAt evaluate p j r)"
    and "frozen p u"
  shows "\<exists>u'. compileColumn evaluate j u = Inr u' \<and> frozen p u'"
proof -
  define t1 where "t1 = (if operation (aggregation (columns u ! j)) \<noteq> AggNone
                then u\<lparr>isThereColumnAggregations := True\<rparr> else u)"
  have f1: "frozen p t1" using assms(5) by (simp add: t1_def)
  have m1: "maxRow t1 = maxRow p" using f1 by (simp add: frozen_def)
  have ty: "columnType (columns t1 ! j) = columnType (columns p ! j)"
    using f1 assms(3) by (simp add: frozen_def sameShape_def)
  show ?thesis
  proof (cases "columnType (columns p ! j) = CalculatedColumn")
    case False
    then have "compileColumn evaluate j u = Inr t1"
      using ty by (simp add: compileColumn_def t1_def Let_def)
    then show ?thesis using f1 by blast
  next
    case True
    have "\<exists>v. forEach (fillRow evaluate j) [0..<Suc (maxRow p)] t1 = Inr v
            \<and> (\<lambda>k. frozen p) (Suc (maxRow p)) v"
    proof (rule forEach_upt_invariant)
      show "frozen p t1" by (rule f1)
    next
      fix k v assume "k < Suc (maxRow p)" "frozen p v"
      then show "\<exists>v'. fillRow evaluate j k v = Inr v' \<and> frozen p v'"
        using fillRow_frozen [OF assms(1,2,3)] assms(4) True by simp
    qed
    then obtain v where v: "forEach (fillRow evaluate j) [0..<Suc (maxRow p)] t1 = Inr v"
      "frozen p v" by blast
    have "compileColumn evaluate j u = Inr v"
      using v(1) ty True m1 by (simp add: compileColumn_def t1_def [symmetric] Let_def)
    then show ?thesis using v(2) by blast
  qed
qed

lemma compile_settled:
  assumes "wellFormed s" "settled evaluate s"
  shows "\<exists>s'. compile evaluate s = Inr s' \<and> sameShape s s' \<and> maxRow s' = maxRow s
     \<and> (\<forall>j < length (columns s). rows (columns s' ! j) = rows (columns s ! j))"
proof -
  define p where "p = assignedTable s"
  define n where "n = length (columns s)"
  have st: "aliased s" "rowExtent s = maxRow s"
    "\<forall>j < n. columnType (columns s ! j) = CalculatedColumn \<longrightarrow>
            (\<forall>r \<le> maxRow s. consistentAt evaluate s j r)"
    using assms(2) by (auto simp: settled_def n_def)
  have p: "sameShape s p" "data p = data s" "maxRow p = rowExtent s"
    "\<forall>i < length (columns s). columns p ! i
           = (case data s i of None \<Rightarrow> columns s ! i | Some rs \<Rightarrow> setRows rs (columns s ! i))"
    unfolding p_def by (rule assignedTable_facts)+
  have lenp: "length (columns p) = n" using p(1) by (simp add: sameShape_def n_def)
  have mp: "maxRow p = maxRow s" using p(3) st(2) by simp
  have cols: "\<forall>i < n. columns p ! i = columns s ! i"
  proof (intro allI impI)
    fix i assume i: "i < n"
    show "columns p ! i = columns s ! i"
    proof (cases "data s i")
      case None
      then show ?thesis using p(4) i by (simp add: n_def)
    next
      case (Some rs)
      then have "rows (columns s ! i) = rs" using st(1) i by (simp add: aliased_def n_def)
      then show ?thesis using p(4) i Some by (simp add: n_def setRows_def)
    qed
  qed
  have wfp: "wellFormed p" using sameShape_wellFormed [OF p(1) assms(1)] .
  have alp: "aliased p"
    using st(1) cols lenp p(2) by (simp add: aliased_def n_def)
  have cons: "consistentAt evaluate p j r" if "j < n" "consistentAt evaluate s j r" for j r
  proof -
    have "getCalculationVariables p r (columns p ! j) = getCalculationVariables s r (columns s ! j)"
    proof (rule getCalculationVariables_cong)
      show "columnNameToIndexMapping p = columnNameToIndexMapping s"
        using p(1) by (simp add: sameShape_def)
      show "length (columns p) = length (columns s)" using lenp by (simp add: n_def)
      show "expectedVariables (calculation (columns p ! j))
          = expectedVariables (calculation (columns s ! j))"
        using cols that(1) by simp
      show "\<forall>i < length (columns s). map_of (rows (columns p ! i)) r = map_of (rows (columns s ! i)) r"
        using cols by (simp add: n_def)
    qed
    then show ?thesis using that cols by (simp add: consistentAt_def)
  qed
  have consp: "\<forall>j < n. columnType (columns p ! j) = CalculatedColumn \<longrightarrow>
            (\<forall>r \<le> maxRow p. consistentAt evaluate p j r)"
    using st(3) cons cols mp by simp
  have "\<exists>s'. forEach (compileColumn evaluate) [0..<n] p = Inr s' \<and> (\<lambda>k. frozen p) n s'"
  proof (rule forEach_upt_invariant)
    show "frozen p p" by (simp add: frozen_def sameShape_refl)
  next
    fix k u assume "k < n" "frozen p u"
    then show "\<exists>u'. compileColumn evaluate k u = Inr u' \<and> frozen p u'"
      using compileColumn_frozen [OF wfp alp] consp lenp by simp
  qed
  then obtain s' where s': "forEach (compileColumn evaluate) [0..<n] p = Inr s'" "frozen p s'"
    by blast
  have c: "compile evaluate s = Inr s'"
    using s'(1) lenp by (simp add: compile_assignedTable p_def [symmetric])
  have f: "sameShape p s'" "maxRow s' = maxRow p"
    "\<forall>j < n. rows (columns s' ! j) = rows (columns p ! j)"
    using s'(2) lenp by (auto simp: frozen_def)
  show ?thesis
    using c sameShape_trans [OF p(1) f(1)] f(2,3) mp cols by (simp add: n_def)
qed

text \<open>
  Claim C1, amended. For a table whose name lookup leads to its columns (as after
  \<^verbatim>\<open>addColumns\<close>) and in which every reference of a calculated column to a
  calculated column is to a column earlier in the list, \<^verbatim>\<open>getValue\<close> gives for
  every row and column the same after two calls of \<^verbatim>\<open>compile\<close> as after one; this
  covers a calculated column whose expression refers to an earlier calculated column.
  Where the first \<^verbatim>\<open>compile\<close> throws, both sides are its error.
\<close>

theorem compile_twice_backward:
  assumes "wellFormed t" "refersBackward t"
  shows "getValueAfter evaluate 2 t rowIndex columnIndex
       = getValueAfter evaluate 1 t rowIndex columnIndex"
proof (cases "compile evaluate t")
  case (Inl thrown)
  then show ?thesis by (simp add: getValueAfter_def numeral_2_eq_2)
next
  case (Inr t1)
  have t1: "compile evaluate t = Inr t1" "sameShape t t1" "settled evaluate t1"
    using Inr compile_settles [OF assms Inr] by simp_all
  have wf1: "wellFormed t1" using sameShape_wellFormed [OF t1(2) assms(1)] .
  obtain t2 where t2: "compile evaluate t1 = Inr t2" "sameShape t1 t2" "maxRow t2 = maxRow t1"
    "\<forall>j < length (columns t1). rows (columns t2 ! j) = rows (columns t1 ! j)"
    using compile_settled [OF wf1 t1(3)] by blast
  have len: "length (columns t2) = length (columns t1)" using t2(2) by (simp add: sameShape_def)
  have "DataTable_getValue t2 rowIndex columnIndex = DataTable_getValue t1 rowIndex columnIndex"
  proof (cases "columnIndex < length (columns t1)")
    case True
    then have "aggregation (columns t2 ! columnIndex) = aggregation (columns t1 ! columnIndex)"
      using t2(2) by (simp add: sameShape_def)
    then show ?thesis using True t2(3,4) len
      by (simp add: DataTable_getValue_def getAggregation_def ColumnData_getValue_def)
  next
    case False
    then show ?thesis using len by (simp add: DataTable_getValue_def)
  qed
  then show ?thesis using t1(1) t2(1) by (simp add: getValueAfter_def numeral_2_eq_2)
qed

theorem compile_twice_backward_witness:
  "getValueAfter sumEvaluator 1 chainTable 0 3 = Inr (Text ''220'')
   \<and> getValueAfter sumEvaluator 2 chainTable 0 3 = Inr (Text ''220'')"
proof -
  have wf: "wellFormed chainTable"
    unfolding chainTable_def by (rule addColumns_wellFormed)
  have rb: "refersBackward chainTable"
    unfolding refersBackward_def
    by (simp add: chainTable_def table_simps less_Suc_eq numeral_eq_Suc all_conj_distrib)
  have one: "getValueAfter sumEvaluator 1 chainTable 0 3 = Inr (Text ''220'')"
    by (simp add: chainTable_def table_simps compile_simps show_simps sumEvaluator_simps)
  show ?thesis using compile_twice_backward [OF wf rb, of sumEvaluator 0 3] one by simp
qed

text \<open>
  Claim C1 as stated fails: in a table of the calculated columns A with expression
  \<^verbatim>\<open>#B#\<close> and B with expression \<^verbatim>\<open>1\<close>, in this order and with no raw data,
  \<^verbatim>\<open>getValue(0, 0)\<close> is \<^verbatim>\<open>ERROR\<close> after one \<^verbatim>\<open>compile\<close> and \<^verbatim>\<open>1\<close>
  after two.
\<close>

theorem compile_twice_counterexample:
  "getValueAfter sumEvaluator 1 forwardTable 0 0 = Inr (Text ''ERROR'')
   \<and> getValueAfter sumEvaluator 2 forwardTable 0 0 = Inr (Text ''1'')"
  by (simp add: forwardTable_def table_simps compile_simps show_simps sumEvaluator_simps
      numeral_2_eq_2)

end
